theory Spec2Isabelle
  imports Complex_Main "HOL-Library.Multiset"
begin

section \<open>Python values and errors\<close>

text \<open>
  The notebooks are Python 3.6 scripts over pandas 1.1 and numpy. Every exception the
  modelled cells can raise is a value of \<open>py_error\<close>; a computation that may raise
  returns \<open>py_error + 'a\<close>, with \<open>Inl\<close> for the exception.
\<close>

datatype py_error =
    ValueError | ZeroDivisionError | KeyError | IndexError | TypeError
  | OSError | JSONDecodeError

fun and_then :: "py_error + 'a \<Rightarrow> ('a \<Rightarrow> py_error + 'b) \<Rightarrow> py_error + 'b" where
  \<comment> \<open>sequencing of statements: an exception ends the computation\<close>
  "and_then (Inl e) f = Inl e"
| "and_then (Inr x) f = f x"

subsection \<open>Binary64 arithmetic\<close>

text \<open>
  A Python float is an IEEE binary64 number. A finite one is a rational, and every
  operation returns the exact result rounded to the nearest number with a 53-bit
  significand, ties to the even significand. The exponent range is not modelled (no
  overflow to infinity, no subnormals): the fractions and row counts of the notebooks
  stay within the normal range.
\<close>

function bit_length :: "int \<Rightarrow> nat" where
  \<comment> \<open>the number of binary digits of a positive integer\<close>
  "bit_length k = (if k \<le> 0 then 0 else Suc (bit_length (k div 2)))"
  by pat_completeness auto
termination
  by (relation "measure nat") auto

declare bit_length.simps [simp del]

definition pow2 :: "int \<Rightarrow> rat" where
  "pow2 e = (if 0 \<le> e then 2 ^ nat e else 1 / 2 ^ nat (- e))"

definition round_half_even :: "rat \<Rightarrow> int" where
  "round_half_even q =
     (let f = \<lfloor>q\<rfloor>; d = q - of_int f
      in if d < 1 / 2 then f
         else if 1 / 2 < d then f + 1
         else if even f then f else f + 1)"

definition ilog2 :: "rat \<Rightarrow> int" where
  \<comment> \<open>for \<open>0 < q\<close>: the exponent \<open>e\<close> with \<open>2 ^ e \<le> q < 2 ^ (e + 1)\<close>\<close>
  "ilog2 q =
     (let (a, b) = quotient_of q;
          d = int (bit_length a) - int (bit_length b)
      in if pow2 d \<le> q then d else d - 1)"

definition fl :: "rat \<Rightarrow> rat" where
  \<comment> \<open>round to nearest binary64, ties to even\<close>
  "fl q =
     (if q = 0 then 0
      else let a = \<bar>q\<bar>; u = pow2 (ilog2 a - 52)
           in sgn q * of_int (round_half_even (a / u)) * u)"

text \<open>
  A Python number is an \<open>int\<close> (unbounded) or a \<open>float\<close>. Mixed arithmetic converts
  the int operand to float first; \<open>/\<close> is true division and always yields a float;
  comparisons between the two are exact; \<open>round\<close> with one argument returns an int,
  rounding halves to even.
\<close>

datatype pynum = PyInt int | PyFloat rat

fun to_float :: "pynum \<Rightarrow> rat" where
  "to_float (PyInt i) = fl (of_int i)"
| "to_float (PyFloat q) = q"

fun py_value :: "pynum \<Rightarrow> rat" where
  "py_value (PyInt i) = of_int i"
| "py_value (PyFloat q) = q"

fun py_mul :: "pynum \<Rightarrow> pynum \<Rightarrow> pynum" where
  "py_mul (PyInt a) (PyInt b) = PyInt (a * b)"
| "py_mul x y = PyFloat (fl (to_float x * to_float y))"

fun py_add :: "pynum \<Rightarrow> pynum \<Rightarrow> pynum" where
  "py_add (PyInt a) (PyInt b) = PyInt (a + b)"
| "py_add x y = PyFloat (fl (to_float x + to_float y))"

fun py_truediv :: "pynum \<Rightarrow> pynum \<Rightarrow> py_error + pynum" where
  "py_truediv (PyInt a) (PyInt b) =
     (if b = 0 then Inl ZeroDivisionError
      else Inr (PyFloat (fl (of_int a / of_int b))))"
| "py_truediv x y =
     (if to_float y = 0 then Inl ZeroDivisionError
      else Inr (PyFloat (fl (to_float x / to_float y))))"

fun py_round :: "pynum \<Rightarrow> int" where
  "py_round (PyInt i) = i"
| "py_round (PyFloat q) = round_half_even q"

definition float_lit :: "rat \<Rightarrow> pynum" where
  \<comment> \<open>a decimal literal such as \<open>0.7\<close> denotes the nearest binary64\<close>
  "float_lit q = PyFloat (fl q)"

section \<open>The random number generator\<close>

text \<open>
  pandas' \<open>sample\<close> draws from numpy's global generator. The generator is an explicit
  state \<open>'s\<close> threaded through every call; \<open>rk\<close> is its raw step function. numpy's
  bounded draw returns a value in \<open>[0, max]\<close>; the model reduces the raw draw into
  that range. \<open>shuffle\<close> is numpy's in-place Fisher-Yates loop
  \<^verbatim>\<open>for i in reversed(range(1, n)): j = random_interval(i); x[i], x[j] = x[j], x[i]\<close>
  and \<open>permutation n\<close> shuffles \<open>arange(n)\<close>.
\<close>

definition random_interval :: "('s \<Rightarrow> nat \<times> 's) \<Rightarrow> 's \<Rightarrow> nat \<Rightarrow> nat \<times> 's" where
  "random_interval rk s mx = (let (v, s') = rk s in (v mod (mx + 1), s'))"

definition swap :: "nat \<Rightarrow> nat \<Rightarrow> 'a list \<Rightarrow> 'a list" where
  "swap i j xs = xs[i := xs ! j, j := xs ! i]"

fun shuffle_from :: "('s \<Rightarrow> nat \<times> 's) \<Rightarrow> nat \<Rightarrow> 's \<Rightarrow> 'a list \<Rightarrow> 'a list \<times> 's" where
  "shuffle_from rk 0 s xs = (xs, s)"
| "shuffle_from rk (Suc i) s xs =
     (let (j, s') = random_interval rk s (Suc i)
      in shuffle_from rk i s' (swap (Suc i) j xs))"

definition shuffle :: "('s \<Rightarrow> nat \<times> 's) \<Rightarrow> 's \<Rightarrow> 'a list \<Rightarrow> 'a list \<times> 's" where
  "shuffle rk s xs = shuffle_from rk (length xs - 1) s xs"

definition permutation :: "('s \<Rightarrow> nat \<times> 's) \<Rightarrow> 's \<Rightarrow> nat \<Rightarrow> nat list \<times> 's" where
  "permutation rk s n = shuffle rk s [0..<n]"

section \<open>Dataframes\<close>

text \<open>
  A dataframe is the list of its rows in order, each with its index label. Index labels
  need not be distinct. A cell of a label column is \<open>None\<close> when the value is missing
  (pandas' NaN), and \<open>==\<close> is never true of a missing value.
\<close>

type_synonym ('i, 'r) frame = "('i \<times> 'r) list"

definition index :: "('i, 'r) frame \<Rightarrow> 'i list" where
  "index df = map fst df"

definition cell_eq :: "'l option \<Rightarrow> 'l option \<Rightarrow> bool" where
  "cell_eq a b = (a \<noteq> None \<and> a = b)"

fun unique :: "'a list \<Rightarrow> 'a list" where
  \<comment> \<open>\<open>Series.unique\<close>: the distinct values in order of first appearance\<close>
  "unique [] = []"
| "unique (x # xs) = x # unique (filter (\<lambda>y. y \<noteq> x) xs)"

definition select_label :: "('r \<Rightarrow> 'l option) \<Rightarrow> 'l option \<Rightarrow> ('i, 'r) frame \<Rightarrow> ('i, 'r) frame" where
  \<comment> \<open>\<open>df[df[label_column] == lbl]\<close>\<close>
  "select_label label_column lbl df = filter (\<lambda>x. cell_eq (label_column (snd x)) lbl) df"

definition drop_rows :: "('i, 'r) frame \<Rightarrow> 'i list \<Rightarrow> py_error + ('i, 'r) frame" where
  \<comment> \<open>\<open>df.drop(labels)\<close>: removes every row carrying one of the labels; a label that
      is not in the index raises KeyError\<close>
  "drop_rows df labels =
     (if \<exists>l \<in> set labels. l \<notin> set (index df) then Inl KeyError
      else Inr (filter (\<lambda>x. fst x \<notin> set labels) df))"

definition sample :: "('s \<Rightarrow> nat \<times> 's) \<Rightarrow> 's \<Rightarrow> pynum \<Rightarrow> ('i, 'r) frame
    \<Rightarrow> py_error + (('i, 'r) frame \<times> 's)" where
  \<comment> \<open>\<open>df.sample(frac=frac)\<close>, without replacement: pandas computes
      \<open>n = round(frac * len(df))\<close> and numpy's \<open>choice(len(df), size=n, replace=False)\<close>
      returns \<open>permutation(len(df))[:n]\<close>; the rows at these positions are taken\<close>
  "sample rk s fraction df =
     (if 1 < py_value fraction then Inl ValueError
      else let n = py_round (py_mul fraction (PyInt (int (length df))))
           in if n < 0 then Inl ValueError
              else if int (length df) < n then Inl ValueError
              else let (p, s') = permutation rk s (length df)
                   in Inr (map (\<lambda>i. df ! i) (take (nat n) p), s'))"

section \<open>Notebook 1: the train/validation/test split\<close>

text \<open>
  \<open>split_to_train_val_test(df, label_column, splits, verbose)\<close>. The argument
  \<open>label_column\<close> is the accessor of the label column in a row. Each frame starts
  empty and \<open>append\<close> concatenates. With \<open>verbose\<close> the function prints the sizes for
  each label and computes nothing else; printing is left out.
\<close>

type_synonym ('i, 'r) split3 = "('i, 'r) frame \<times> ('i, 'r) frame \<times> ('i, 'r) frame"

definition split_label :: "('s \<Rightarrow> nat \<times> 's) \<Rightarrow> 's \<Rightarrow> ('i, 'r) frame \<Rightarrow> ('r \<Rightarrow> 'l option)
    \<Rightarrow> pynum \<times> pynum \<times> pynum \<Rightarrow> 'l option \<Rightarrow> py_error + (('i, 'r) split3 \<times> 's)" where
  \<comment> \<open>the body of the loop over the labels\<close>
  "split_label rk s df label_column splits lbl =
     (let lbl_df = select_label label_column lbl df in
      and_then (sample rk s (fst splits) lbl_df) (\<lambda>(lbl_train_df, s1).
      and_then (drop_rows lbl_df (index lbl_train_df)) (\<lambda>lbl_val_and_test_df.
      and_then (py_truediv (snd (snd splits)) (py_add (fst (snd splits)) (snd (snd splits))))
        (\<lambda>fraction.
      and_then (sample rk s1 fraction lbl_val_and_test_df) (\<lambda>(lbl_test_df, s2).
      and_then (drop_rows lbl_val_and_test_df (index lbl_test_df)) (\<lambda>lbl_val_df.
      Inr ((lbl_train_df, lbl_val_df, lbl_test_df), s2)))))))"

fun split_loop :: "('s \<Rightarrow> nat \<times> 's) \<Rightarrow> ('i, 'r) frame \<Rightarrow> ('r \<Rightarrow> 'l option)
    \<Rightarrow> pynum \<times> pynum \<times> pynum \<Rightarrow> 'l option list \<Rightarrow> ('i, 'r) split3 \<times> 's
    \<Rightarrow> py_error + (('i, 'r) split3 \<times> 's)" where
  "split_loop rk df label_column splits [] acc = Inr acc"
| "split_loop rk df label_column splits (lbl # labels) ((train_df, val_df, test_df), s) =
     and_then (split_label rk s df label_column splits lbl)
       (\<lambda>((lbl_train_df, lbl_val_df, lbl_test_df), s').
          split_loop rk df label_column splits labels
            ((train_df @ lbl_train_df, val_df @ lbl_val_df, test_df @ lbl_test_df), s'))"

definition split_to_train_val_test :: "('s \<Rightarrow> nat \<times> 's) \<Rightarrow> 's \<Rightarrow> ('i, 'r) frame
    \<Rightarrow> ('r \<Rightarrow> 'l option) \<Rightarrow> pynum \<times> pynum \<times> pynum \<Rightarrow> py_error + (('i, 'r) split3 \<times> 's)" where
  \<comment> \<open>the three accumulated frames are shuffled on the way out with \<open>sample(frac=1)\<close>,
      where \<open>1\<close> is an int\<close>
  "split_to_train_val_test rk s df label_column splits =
     (let labels = unique (map (\<lambda>x. label_column (snd x)) df) in
      and_then (split_loop rk df label_column splits labels (([], [], []), s))
        (\<lambda>((train_df, val_df, test_df), s0).
      and_then (sample rk s0 (PyInt 1) train_df) (\<lambda>(train_out, s1).
      and_then (sample rk s1 (PyInt 1) val_df) (\<lambda>(val_out, s2).
      and_then (sample rk s2 (PyInt 1) test_df) (\<lambda>(test_out, s3).
      Inr ((train_out, val_out, test_out), s3))))))"

definition SPLIT_RATIOS :: "pynum \<times> pynum \<times> pynum" where
  "SPLIT_RATIOS = (float_lit (7 / 10), float_lit (2 / 10), float_lit (1 / 10))"

subsection \<open>Building the image table\<close>

text \<open>
  The globals of the notebook. \<open>SAMPLE_ONLY\<close> is a flag the reader is invited to
  change, so it is a parameter here, and \<open>CLASSES\<close> is computed from it as the
  configuration cell does.
\<close>

definition EXCLUDE_IMAGE_LIST :: "string list" where
  "EXCLUDE_IMAGE_LIST = [''087.Mallard/Mallard_0130_76836.jpg'']"

definition CLASSES :: "bool \<Rightarrow> int list" where
  "CLASSES sample_only = (if sample_only then [13, 17] else map (\<lambda>c. int c + 1) [0..<200])"

text \<open>Python's \<open>str.split(sep)\<close> and \<open>str(i)\<close> for an int.\<close>

fun py_split :: "char \<Rightarrow> string \<Rightarrow> string list" where
  "py_split sep [] = [[]]"
| "py_split sep (c # cs) =
     (if c = sep then [] # py_split sep cs
      else (case py_split sep cs of [] \<Rightarrow> [[c]] | w # ws \<Rightarrow> (c # w) # ws))"

definition digit :: "nat \<Rightarrow> char" where
  "digit d = char_of (48 + d)"

fun digits :: "nat \<Rightarrow> string" where
  "digits n = (if n < 10 then [digit n] else digits (n div 10) @ [digit (n mod 10)])"

declare digits.simps [simp del]

definition py_str :: "int \<Rightarrow> string" where
  "py_str i = (if i < 0 then CHR ''-'' # digits (nat (- i)) else digits (nat i))"

text \<open>
  \<open>read_csv\<close> yields a frame with the index \<open>0, 1, 2, \<dots>\<close>; so do \<open>reset_index\<close>
  and \<open>merge\<close>. A row of \<open>images.txt\<close> is (image_pretty_name, image_file_name), a
  row of \<open>image_class_labels.txt\<close> is (image_pretty_name, orig_class_id).
\<close>

definition range_frame :: "'r list \<Rightarrow> (nat, 'r) frame" where
  "range_frame rows = zip [0..<length rows] rows"

definition reset_index :: "('i, 'r) frame \<Rightarrow> (nat, 'r) frame" where
  "reset_index df = range_frame (map snd df)"

definition isin :: "'a \<Rightarrow> 'a list \<Rightarrow> bool" where
  "isin x xs = (x \<in> set xs)"

definition merge_on_pretty_name :: "('i, int \<times> string) frame \<Rightarrow> ('j, int \<times> int) frame
    \<Rightarrow> (nat, int \<times> string \<times> int) frame" where
  \<comment> \<open>\<open>pd.merge(left, right, on='image_pretty_name')\<close>: the inner join, in the order
      of the left rows\<close>
  "merge_on_pretty_name left right =
     range_frame (concat (map (\<lambda>l. map (\<lambda>r. (fst (snd l), snd (snd l), snd (snd r)))
       (filter (\<lambda>r. fst (snd r) = fst (snd l)) right)) left))"

fun id_to_one_based_loop :: "int list \<Rightarrow> int \<Rightarrow> (int \<rightharpoonup> string) \<Rightarrow> (int \<rightharpoonup> string)" where
  "id_to_one_based_loop [] i m = m"
| "id_to_one_based_loop (c # cs) i m = id_to_one_based_loop cs (i + 1) (m(c \<mapsto> py_str i))"

definition id_to_one_based :: "int list \<Rightarrow> (int \<rightharpoonup> string)" where
  "id_to_one_based sorted_unique_classes = id_to_one_based_loop sorted_unique_classes 1 Map.empty"

definition get_class_name :: "string \<Rightarrow> string" where
  "get_class_name fn = hd (py_split CHR ''/'' fn)"

record bird_row =
  image_file_name :: string
  orig_class_id :: int
  class_id :: "string option"
  class_name :: string

definition sorted_unique_classes :: "('i, int \<times> string \<times> int) frame \<Rightarrow> int list" where
  \<comment> \<open>\<open>sorted(full_df['orig_class_id'].drop_duplicates())\<close>\<close>
  "sorted_unique_classes full_df = sort (unique (map (\<lambda>x. snd (snd (snd x))) full_df))"

definition filtered_table :: "bool \<Rightarrow> (int \<times> string) list \<Rightarrow> (int \<times> int) list
    \<Rightarrow> (nat, int \<times> string \<times> int) frame" where
  \<comment> \<open>\<open>full_df\<close> up to and including the \<open>SAMPLE_ONLY\<close> filter\<close>
  "filtered_table sample_only images labels =
     (let images_df = range_frame images;
          image_class_labels_df = range_frame labels;
          full_df = images_df;
          full_df = filter (\<lambda>x. \<not> isin (snd (snd x)) EXCLUDE_IMAGE_LIST) full_df;
          full_df = reset_index full_df;
          full_df = merge_on_pretty_name full_df image_class_labels_df
      in if sample_only
         then filter (\<lambda>x. isin (snd (snd (snd x))) (CLASSES sample_only)) full_df
         else full_df)"

definition labelled_table :: "bool \<Rightarrow> (int \<times> string) list \<Rightarrow> (int \<times> int) list
    \<Rightarrow> (nat, bird_row) frame" where
  \<comment> \<open>\<open>full_df\<close> as it is passed to the splitter: \<open>class_id\<close> mapped through
      \<open>id_to_one_based\<close> (a key that is not in the dictionary gives a missing value),
      the index reset, \<open>class_name\<close> added and \<open>image_pretty_name\<close> dropped\<close>
  "labelled_table sample_only images labels =
     (let full_df = filtered_table sample_only images labels;
          id_map = id_to_one_based (sorted_unique_classes full_df);
          full_df = reset_index full_df
      in map (\<lambda>x. (fst x,
            \<lparr>image_file_name = fst (snd (snd x)),
             orig_class_id = snd (snd (snd x)),
             class_id = id_map (snd (snd (snd x))),
             class_name = get_class_name (fst (snd (snd x)))\<rparr>)) full_df)"

definition get_train_val_dataframes :: "('s \<Rightarrow> nat \<times> 's) \<Rightarrow> 's \<Rightarrow> bool
    \<Rightarrow> (int \<times> string) list \<Rightarrow> (int \<times> int) list
    \<Rightarrow> py_error + ((nat, bird_row) split3 \<times> 's)" where
  "get_train_val_dataframes rk s sample_only images labels =
     split_to_train_val_test rk s (labelled_table sample_only images labels) class_id SPLIT_RATIOS"

section \<open>Notebook 3: tallying the batch predictions\<close>

text \<open>
  A result file holds JSON. \<open>json.load\<close> gives Python values: a number is an int or
  a float, an object is a dict, in which the last of several equal keys wins and whose
  iteration yields the keys. The non-finite literals that \<open>json.load\<close> also accepts
  are outside the model.
\<close>

datatype json =
    JNull | JBool bool | JNum pynum | JStr string | JArr "json list"
  | JObj "(string \<times> json) list"

fun subscript_str :: "json \<Rightarrow> string \<Rightarrow> py_error + json" where
  \<comment> \<open>\<open>jstr['predictions']\<close>\<close>
  "subscript_str (JObj kvs) k = (case map_of (rev kvs) k of None \<Rightarrow> Inl KeyError | Some v \<Rightarrow> Inr v)"
| "subscript_str _ k = Inl TypeError"

fun py_iter :: "json \<Rightarrow> py_error + json list" where
  \<comment> \<open>what a \<open>for\<close> clause iterates over\<close>
  "py_iter (JArr xs) = Inr xs"
| "py_iter (JStr s) = Inr (map (\<lambda>c. JStr [c]) s)"
| "py_iter (JObj kvs) = Inr (map JStr (unique (map fst kvs)))"
| "py_iter _ = Inl TypeError"

definition round3 :: "rat \<Rightarrow> rat" where
  \<comment> \<open>\<open>float('%.3f' % x)\<close>: the decimal with three places nearest to \<open>x\<close>, read
      back as a float\<close>
  "round3 x = fl (of_int (round_half_even (x * 1000)) / 1000)"

fun format3 :: "json \<Rightarrow> py_error + rat" where
  "format3 (JNum n) = Inr (round3 (to_float n))"
| "format3 (JBool b) = Inr (if b then 1 else 0)"
| "format3 _ = Inl TypeError"

fun map_err :: "('a \<Rightarrow> py_error + 'b) \<Rightarrow> 'a list \<Rightarrow> py_error + 'b list" where
  "map_err f [] = Inr []"
| "map_err f (x # xs) = and_then (f x) (\<lambda>y. and_then (map_err f xs) (\<lambda>ys. Inr (y # ys)))"

definition flatten_results :: "json \<Rightarrow> py_error + rat list" where
  \<comment> \<open>\<open>[float('%.3f'%(item)) for sublist in predictions for item in sublist]\<close>\<close>
  "flatten_results predictions =
     and_then (py_iter predictions) (\<lambda>sublists.
     and_then (map_err (\<lambda>sublist. and_then (py_iter sublist) (map_err format3)) sublists)
       (\<lambda>rows. Inr (concat rows)))"

fun argmax_loop :: "rat list \<Rightarrow> nat \<Rightarrow> nat \<Rightarrow> rat \<Rightarrow> nat" where
  "argmax_loop [] i best mx = best"
| "argmax_loop (x # xs) i best mx =
     (if mx < x then argmax_loop xs (Suc i) i x else argmax_loop xs (Suc i) best mx)"

definition np_argmax :: "rat list \<Rightarrow> py_error + nat" where
  \<comment> \<open>\<open>np.argmax\<close>: the first position of the maximum; an empty array raises\<close>
  "np_argmax xs = (case xs of [] \<Rightarrow> Inl ValueError | x # rest \<Rightarrow> Inr (argmax_loop rest 1 0 x))"

definition subscript :: "'a list \<Rightarrow> nat \<Rightarrow> py_error + 'a" where
  \<comment> \<open>\<open>xs[i]\<close> for \<open>0 \<le> i\<close>\<close>
  "subscript xs i = (if i < length xs then Inr (xs ! i) else Inl IndexError)"

fun list_index :: "'a list \<Rightarrow> 'a \<Rightarrow> py_error + nat" where
  \<comment> \<open>\<open>xs.index(x)\<close>\<close>
  "list_index [] x = Inl ValueError"
| "list_index (y # ys) x =
     (if y = x then Inr 0 else and_then (list_index ys x) (\<lambda>i. Inr (Suc i)))"

text \<open>
  The cell keeps four variables and prints the exceptions it catches. A statement is a
  function from this state to an outcome and the state it leaves: what a statement has
  changed before a later one raises stays changed.
\<close>

record tally =
  total :: int
  correct :: int
  predicted :: "nat list"
  actual :: "nat list"
  printed :: "py_error list"

type_synonym 'a stmt = "tally \<Rightarrow> (py_error + 'a) \<times> tally"

definition eval_expr :: "py_error + 'a \<Rightarrow> 'a stmt" where
  "eval_expr r st = (r, st)"

definition assign :: "(tally \<Rightarrow> tally) \<Rightarrow> unit stmt" where
  "assign f st = (Inr (), f st)"

definition seq :: "'a stmt \<Rightarrow> ('a \<Rightarrow> 'b stmt) \<Rightarrow> 'b stmt" where
  "seq m f st = (case m st of (Inl e, st') \<Rightarrow> (Inl e, st') | (Inr x, st') \<Rightarrow> f x st')"

definition try_body :: "string list \<Rightarrow> (string \<Rightarrow> py_error + json) \<Rightarrow> string \<Rightarrow> unit stmt" where
  \<comment> \<open>the body of \<open>try\<close>; \<open>load entry\<close> is \<open>json.load(open(entry, 'r'))\<close>\<close>
  "try_body class_name_list load entry =
     seq (eval_expr (subscript (py_split CHR ''/'' entry) 1)) (\<lambda>actual_label.
     seq (eval_expr (list_index class_name_list actual_label)) (\<lambda>actual_index.
     seq (eval_expr (load entry)) (\<lambda>jstr.
     seq (eval_expr (and_then (subscript_str jstr ''predictions'') flatten_results)) (\<lambda>results.
     seq (eval_expr (np_argmax results)) (\<lambda>class_index.
     seq (eval_expr (subscript class_name_list class_index)) (\<lambda>predicted_label.
     seq (assign (\<lambda>st. st\<lparr>predicted := predicted st @ [class_index]\<rparr>)) (\<lambda>_.
     seq (assign (\<lambda>st. st\<lparr>actual := actual st @ [actual_index]\<rparr>)) (\<lambda>_.
     let is_correct = (predicted_label = actual_label \<or> False) in
     seq (assign (\<lambda>st. if is_correct then st\<lparr>correct := correct st + 1\<rparr> else st)) (\<lambda>_.
     assign (\<lambda>st. st\<lparr>total := total st + 1\<rparr>))))))))))"

definition loop_step :: "string list \<Rightarrow> (string \<Rightarrow> py_error + json) \<Rightarrow> tally \<Rightarrow> string \<Rightarrow> tally" where
  \<comment> \<open>one iteration: \<open>except Exception as e: print(e); continue\<close>\<close>
  "loop_step class_name_list load st entry =
     (case try_body class_name_list load entry st of
        (Inl e, st') \<Rightarrow> st'\<lparr>printed := printed st' @ [e]\<rparr>
      | (Inr _, st') \<Rightarrow> st')"

definition initial_tally :: tally where
  "initial_tally = \<lparr>total = 0, correct = 0, predicted = [], actual = [], printed = []\<rparr>"

definition aggregate :: "string list \<Rightarrow> (string \<Rightarrow> py_error + json) \<Rightarrow> string list \<Rightarrow> tally" where
  \<comment> \<open>\<open>entries\<close> is what \<open>glob.glob('batch_predictions/*/*')\<close> returned\<close>
  "aggregate class_name_list load entries = foldl (loop_step class_name_list load) initial_tally entries"

definition accuracy :: "tally \<Rightarrow> py_error + pynum" where
  \<comment> \<open>\<open>accuracy = correct / total\<close>\<close>
  "accuracy st = py_truediv (PyInt (correct st)) (PyInt (total st))"

section \<open>Auxiliary notions for the proofs\<close>

definition selection :: "'a list \<Rightarrow> 'a list \<Rightarrow> bool" where
  \<comment> \<open>\<open>out\<close> consists of the rows of \<open>df\<close> at pairwise distinct positions\<close>
  "selection out df = (\<exists>ps. distinct ps \<and> set ps \<subseteq> {0..<length df} \<and> out = map (\<lambda>i. df ! i) ps)"

definition stratum_ok :: "pynum \<times> pynum \<times> pynum \<Rightarrow> nat \<Rightarrow> nat \<Rightarrow> nat \<Rightarrow> bool" where
  \<comment> \<open>of \<open>n\<close> rows with one label, \<open>a\<close> went to train and \<open>c\<close> to test as the
      fractions of \<open>splits\<close> prescribe\<close>
  "stratum_ok splits n a c =
     (int a = py_round (py_mul (fst splits) (PyInt (int n))) \<and>
      (\<exists>f. py_truediv (snd (snd splits)) (py_add (fst (snd splits)) (snd (snd splits))) = Inr f
         \<and> int c = py_round (py_mul f (PyInt (int (n - a))))))"

definition covered :: "('r \<Rightarrow> 'l option) \<Rightarrow> 'l option list \<Rightarrow> ('i, 'r) frame \<Rightarrow> ('i, 'r) frame" where
  \<comment> \<open>the rows whose label equals one of \<open>ls\<close>\<close>
  "covered lc ls df = filter (\<lambda>x. \<exists>l \<in> set ls. cell_eq (lc (snd x)) l) df"

definition entry_outcome :: "string list \<Rightarrow> (string \<Rightarrow> py_error + json) \<Rightarrow> string
    \<Rightarrow> py_error + (nat \<times> nat \<times> bool)" where
  \<comment> \<open>what the expressions of the \<open>try\<close> body evaluate to for one file: the class
      index, the actual index and \<open>is_correct\<close>\<close>
  "entry_outcome class_name_list load entry =
     and_then (subscript (py_split CHR ''/'' entry) 1) (\<lambda>actual_label.
     and_then (list_index class_name_list actual_label) (\<lambda>actual_index.
     and_then (load entry) (\<lambda>jstr.
     and_then (and_then (subscript_str jstr ''predictions'') flatten_results) (\<lambda>results.
     and_then (np_argmax results) (\<lambda>class_index.
     and_then (subscript class_name_list class_index) (\<lambda>predicted_label.
     Inr (class_index, actual_index, predicted_label = actual_label)))))))"

definition record_outcome :: "nat \<times> nat \<times> bool \<Rightarrow> tally \<Rightarrow> tally" where
  "record_outcome r st =
     st\<lparr>predicted := predicted st @ [fst r], actual := actual st @ [fst (snd r)],
        correct := correct st + (if snd (snd r) then 1 else 0), total := total st + 1\<rparr>"

definition tallies :: "tally \<Rightarrow> int \<times> int \<times> nat list \<times> nat list" where
  "tallies st = (total st, correct st, predicted st, actual st)"

definition aligned :: "tally \<Rightarrow> bool" where
  "aligned st =
     (length (predicted st) = length (actual st) \<and> int (length (predicted st)) = total st
      \<and> 0 \<le> correct st \<and> correct st \<le> total st)"

section \<open>Example inputs\<close>

definition rk_example :: "nat \<Rightarrow> nat \<times> nat" where
  "rk_example s = (s * 7 + 1, s + 3)"

definition label_of :: "nat option \<Rightarrow> nat option" where
  "label_of r = r"

definition frame_example :: "(nat, nat option) frame" where
  "frame_example =
     [(0, Some 1), (1, Some 2), (2, Some 1), (3, Some 1), (4, Some 1), (5, Some 1), (6, Some 1)]"

definition frame_missing :: "(nat, nat option) frame" where
  "frame_missing = [(0, None)]"

definition frame_same_index :: "(nat, nat option) frame" where
  "frame_same_index = [(0, Some 1), (0, Some 1), (0, Some 1), (0, Some 1), (0, Some 1), (0, Some 1)]"

definition load_example :: "string \<Rightarrow> py_error + json" where
  "load_example path =
     (if path = ''batch_predictions/b/x.jpg.out''
      then Inr (JObj [(''predictions'',
             JArr [JArr [JNum (float_lit (4996 / 10000)), JNum (float_lit (5004 / 10000))]])])
      else if path = ''batch_predictions/a/y.jpg.out''
      then Inr (JObj [(''predictions'',
             JArr [JArr [JNum (float_lit (9 / 10)), JNum (float_lit (1 / 10))]])])
      else if path = ''batch_predictions/a/z.jpg.out''
      then Inr (JObj [(''predictions'', JArr [JArr [JNum (float_lit (9 / 10)), JNull]])])
      else Inl OSError)"

definition images_example :: "(int \<times> string) list" where
  "images_example =
     [(1, ''013.Bobolink/a.jpg''), (2, ''013.Bobolink/b.jpg''), (3, ''017.Cardinal/c.jpg''),
      (4, ''087.Mallard/Mallard_0130_76836.jpg''), (5, ''087.Mallard/x.jpg'')]"

definition labels_example :: "(int \<times> int) list" where
  "labels_example = [(1, 13), (2, 13), (3, 17), (4, 87), (5, 87)]"

section \<open>Properties of the generator and of the dataframe operations\<close>

lemma mset_swap_frame: "i < length xs \<Longrightarrow> j < length xs \<Longrightarrow> mset (swap i j xs) = mset xs"
  unfolding swap_def by (simp add: mset_swap)

lemma length_swap [simp]: "length (swap i j xs) = length xs"
  by (simp add: swap_def)

lemma random_interval_le: "fst (random_interval rk s mx) \<le> mx"
  by (simp add: random_interval_def split: prod.splits)

lemma mset_shuffle_from:
  "i < length xs \<or> i = 0 \<Longrightarrow> mset (fst (shuffle_from rk i s xs)) = mset xs"
proof (induction i arbitrary: s xs)
  case 0
  then show ?case by simp
next
  case (Suc i)
  obtain j s' where r: "random_interval rk s (Suc i) = (j, s')"
    by (cases "random_interval rk s (Suc i)")
  have "j \<le> Suc i" using random_interval_le [of rk s "Suc i"] r by simp
  with Suc.prems have sw: "mset (swap (Suc i) j xs) = mset xs"
    by (intro mset_swap_frame) auto
  have "mset (fst (shuffle_from rk i s' (swap (Suc i) j xs))) = mset (swap (Suc i) j xs)"
    using Suc.prems by (intro Suc.IH) auto
  with sw r show ?case by simp
qed

lemma mset_shuffle: "mset (fst (shuffle rk s xs)) = mset xs"
  unfolding shuffle_def by (rule mset_shuffle_from) (cases xs; simp)

lemma mset_permutation: "mset (fst (permutation rk s n)) = mset [0..<n]"
  by (simp add: permutation_def mset_shuffle)

lemma permutation_props:
  "distinct (fst (permutation rk s n))" "set (fst (permutation rk s n)) = {0..<n}"
  "length (fst (permutation rk s n)) = n"
proof -
  have m: "mset (fst (permutation rk s n)) = mset [0..<n]" by (rule mset_permutation)
  show "distinct (fst (permutation rk s n))"
    using m by (metis distinct_upt mset_eq_imp_distinct_iff)
  show "set (fst (permutation rk s n)) = {0..<n}"
    using m by (metis mset_eq_setD set_upt)
  show "length (fst (permutation rk s n)) = n"
    using m by (metis length_upt mset_eq_length minus_nat.diff_0)
qed

lemma sample_Inr:
  assumes "sample rk s fraction df = Inr (out, s')"
  shows "selection out df"
    and "int (length out) = py_round (py_mul fraction (PyInt (int (length df))))"
    and "py_value fraction \<le> 1"
proof -
  let ?n = "py_round (py_mul fraction (PyInt (int (length df))))"
  let ?p = "fst (permutation rk s (length df))"
  from assms have le: "py_value fraction \<le> 1" and n0: "0 \<le> ?n" and n1: "?n \<le> int (length df)"
    and out: "out = map (\<lambda>i. df ! i) (take (nat ?n) ?p)"
    by (auto simp: sample_def Let_def split: if_splits prod.splits)
  show "py_value fraction \<le> 1" by (rule le)
  have "distinct (take (nat ?n) ?p)" by (simp add: permutation_props)
  moreover have "set (take (nat ?n) ?p) \<subseteq> {0..<length df}"
    using set_take_subset [of "nat ?n" ?p] by (simp add: permutation_props)
  ultimately show "selection out df" unfolding selection_def using out by blast
  have "length out = nat ?n" using out n0 n1 by (simp add: permutation_props)
  then show "int (length out) = ?n" using n0 by simp
qed

lemma sample_all:
  assumes "sample rk s (PyInt 1) df = Inr (out, s')"
  shows "mset out = mset df"
proof -
  let ?p = "fst (permutation rk s (length df))"
  from assms have out: "out = map (\<lambda>i. df ! i) (take (length df) ?p)"
    by (auto simp: sample_def Let_def split: if_splits prod.splits)
  then have "out = map (\<lambda>i. df ! i) ?p" by (simp add: permutation_props)
  then have "mset out = image_mset (\<lambda>i. df ! i) (mset ?p)"
    by (simp only: mset_map)
  also have "\<dots> = image_mset (\<lambda>i. df ! i) (mset [0..<length df])"
    by (simp only: mset_permutation)
  also have "\<dots> = mset (map (\<lambda>i. df ! i) [0..<length df])"
    by (simp only: mset_map)
  also have "\<dots> = mset df" by (simp only: map_nth)
  finally show ?thesis .
qed

lemma selection_props:
  assumes "selection out df" "distinct (map fst df)"
  shows "distinct (map fst out)" "set out \<subseteq> set df"
proof -
  from assms obtain ps where ps: "distinct ps" "set ps \<subseteq> {0..<length df}"
    "out = map (\<lambda>i. df ! i) ps" unfolding selection_def by blast
  show "set out \<subseteq> set df" using ps by auto
  have "inj_on (\<lambda>i. fst (df ! i)) (set ps)"
  proof (rule inj_onI)
    fix i j assume "i \<in> set ps" "j \<in> set ps" "fst (df ! i) = fst (df ! j)"
    then have b: "i < length df" "j < length df" and "fst (df ! i) = fst (df ! j)"
      using ps(2) by auto
    then have "map fst df ! i = map fst df ! j" by simp
    with assms(2) b show "i = j" by (metis distinct_conv_nth length_map)
  qed
  then show "distinct (map fst out)" using ps by (simp add: distinct_map comp_def)
qed

lemma drop_rows_selection:
  assumes "set out \<subseteq> set df" "distinct (map fst df)" "distinct (map fst out)"
  shows "\<exists>rest. drop_rows df (index out) = Inr rest \<and> mset out + mset rest = mset df
     \<and> distinct (map fst rest) \<and> set rest \<subseteq> set df"
proof -
  let ?rest = "filter (\<lambda>x. fst x \<notin> set (index out)) df"
  have d: "drop_rows df (index out) = Inr ?rest"
    using assms(1) by (auto simp: drop_rows_def index_def)
  have inj: "inj_on fst (set df)" using assms(2) by (simp add: distinct_map)
  have eq: "\<And>x. x \<in> set df \<Longrightarrow> (fst x \<in> set (index out)) = (x \<in> set out)"
    using assms(1) inj by (auto simp: index_def dest: inj_onD)
  have dd: "distinct df" "distinct out" using assms(2,3) by (auto simp: distinct_map)
  have "mset (filter (\<lambda>x. fst x \<in> set (index out)) df) = mset out"
  proof -
    have "set (filter (\<lambda>x. fst x \<in> set (index out)) df) = set out"
      using eq assms(1) by auto
    then show ?thesis using dd by (simp add: set_eq_iff_mset_eq_distinct [symmetric] del: mset_filter)
  qed
  moreover have "mset (filter (\<lambda>x. fst x \<in> set (index out)) df) + mset ?rest = mset df"
    using multiset_partition [of "mset df" "\<lambda>x. fst x \<in> set (index out)"] by simp
  ultimately have "mset out + mset ?rest = mset df" by simp
  moreover have "distinct (map fst ?rest)" using assms(2) by (simp add: distinct_map_filter)
  ultimately show ?thesis using d by auto
qed

section \<open>The split\<close>

lemma and_then_Inr: "and_then m f = Inr y \<longleftrightarrow> (\<exists>x. m = Inr x \<and> f x = Inr y)"
  by (cases m) auto

lemma select_label_distinct:
  "distinct (map fst df) \<Longrightarrow> distinct (map fst (select_label lc l df))"
  by (simp add: select_label_def distinct_map_filter)

lemma select_label_None [simp]: "select_label lc None df = []"
  by (auto simp: select_label_def cell_eq_def filter_empty_conv)

lemma select_label_within:
  assumes "set xs \<subseteq> set (select_label lc lbl df)"
  shows "select_label lc (Some v) xs = (if lbl = Some v then xs else [])"
proof -
  have "\<And>x. x \<in> set xs \<Longrightarrow> cell_eq (lc (snd x)) lbl"
    using assms by (auto simp: select_label_def)
  then have "\<And>x. x \<in> set xs \<Longrightarrow> cell_eq (lc (snd x)) (Some v) = (lbl = Some v)"
    by (auto simp: cell_eq_def)
  then show ?thesis
    by (auto simp: select_label_def filter_id_conv filter_empty_conv)
qed

lemma split_label_Inr:
  assumes d: "distinct (map fst df)"
    and r: "split_label rk s df lc splits lbl = Inr ((ltr, lva, lte), s')"
  shows "mset ltr + mset lva + mset lte = mset (select_label lc lbl df)"
    and "int (length ltr) =
      py_round (py_mul (fst splits) (PyInt (int (length (select_label lc lbl df)))))"
    and "\<exists>f. py_truediv (snd (snd splits)) (py_add (fst (snd splits)) (snd (snd splits))) = Inr f
      \<and> int (length lte) =
        py_round (py_mul f (PyInt (int (length (select_label lc lbl df) - length ltr))))"
proof -
  let ?L = "select_label lc lbl df"
  from r obtain s1 vt f s2 where
    a: "sample rk s (fst splits) ?L = Inr (ltr, s1)" and
    b: "drop_rows ?L (index ltr) = Inr vt" and
    c: "py_truediv (snd (snd splits)) (py_add (fst (snd splits)) (snd (snd splits))) = Inr f" and
    e: "sample rk s1 f vt = Inr (lte, s2)" and
    g: "drop_rows vt (index lte) = Inr lva"
    unfolding split_label_def Let_def by (auto simp: and_then_Inr split: prod.splits)
  have dL: "distinct (map fst ?L)" using d by (rule select_label_distinct)
  have s1: "distinct (map fst ltr)" "set ltr \<subseteq> set ?L"
    using selection_props [OF sample_Inr(1) [OF a] dL] by auto
  from drop_rows_selection [OF s1(2) dL s1(1)] b
  have vt: "mset ltr + mset vt = mset ?L" "distinct (map fst vt)" by auto
  have s2: "distinct (map fst lte)" "set lte \<subseteq> set vt"
    using selection_props [OF sample_Inr(1) [OF e] vt(2)] by auto
  from drop_rows_selection [OF s2(2) vt(2) s2(1)] g
  have va: "mset lte + mset lva = mset vt" by auto
  show "mset ltr + mset lva + mset lte = mset ?L"
    using vt(1) va by (metis add.assoc add.commute)
  show "int (length ltr) = py_round (py_mul (fst splits) (PyInt (int (length ?L))))"
    using sample_Inr(2) [OF a] .
  have "size (mset ltr + mset vt) = size (mset ?L)" using vt(1) by simp
  then have "length vt = length ?L - length ltr" by simp
  then show "\<exists>f. py_truediv (snd (snd splits)) (py_add (fst (snd splits)) (snd (snd splits))) = Inr f
      \<and> int (length lte) = py_round (py_mul f (PyInt (int (length ?L - length ltr))))"
    using sample_Inr(2) [OF e] c by auto
qed

lemma mset_filter_disj:
  "(\<And>x. x \<in> set xs \<Longrightarrow> \<not> (P x \<and> Q x)) \<Longrightarrow>
   mset (filter (\<lambda>x. P x \<or> Q x) xs) = mset (filter P xs) + mset (filter Q xs)"
  by (induction xs) auto

lemma mset_subset_set: "mset a + b = mset c \<Longrightarrow> set a \<subseteq> set c"
  by (metis mset_subset_eq_add_left set_mset_mono set_mset_mset)

lemma select_label_append [simp]:
  "select_label lc l (xs @ ys) = select_label lc l xs @ select_label lc l ys"
  by (simp add: select_label_def)

lemma select_label_outside:
  assumes "set xs \<subseteq> set (covered lc ls df)" "Some v \<notin> set ls"
  shows "select_label lc (Some v) xs = []"
proof -
  have "\<And>x. x \<in> set xs \<Longrightarrow> \<not> cell_eq (lc (snd x)) (Some v)"
    using assms by (auto simp: covered_def cell_eq_def)
  then show ?thesis by (simp add: select_label_def filter_empty_conv)
qed

lemma covered_Cons:
  assumes "lbl \<notin> set ls"
  shows "mset (covered lc (lbl # ls) df) = mset (select_label lc lbl df) + mset (covered lc ls df)"
proof -
  have "mset (filter (\<lambda>x. cell_eq (lc (snd x)) lbl \<or> (\<exists>l \<in> set ls. cell_eq (lc (snd x)) l)) df)
      = mset (filter (\<lambda>x. cell_eq (lc (snd x)) lbl) df)
        + mset (filter (\<lambda>x. \<exists>l \<in> set ls. cell_eq (lc (snd x)) l) df)"
    using assms by (intro mset_filter_disj) (auto simp: cell_eq_def)
  then show ?thesis by (simp add: covered_def select_label_def)
qed

lemma covered_Nil [simp]: "covered lc [] df = []"
  by (simp add: covered_def)

lemma mset3_set:
  assumes "mset a + mset b + mset c = mset d"
  shows "set a \<union> set b \<union> set c = set d"
proof -
  have "set_mset (mset a + mset b + mset c) = set_mset (mset d)" using assms by simp
  then show ?thesis by simp
qed

lemma split_loop_Inr:
  assumes d: "distinct (map fst df)"
  shows "split_loop rk df lc splits ls ((tr, va, te), s) = Inr ((tr', va', te'), s') \<Longrightarrow>
     distinct ls \<Longrightarrow>
     \<exists>atr ava ate. tr' = tr @ atr \<and> va' = va @ ava \<and> te' = te @ ate
       \<and> mset atr + mset ava + mset ate = mset (covered lc ls df)
       \<and> (\<forall>v. Some v \<in> set ls \<longrightarrow>
            stratum_ok splits (length (select_label lc (Some v) df))
              (length (select_label lc (Some v) atr)) (length (select_label lc (Some v) ate)))"
proof (induction ls arbitrary: tr va te s)
  case Nil
  then show ?case by simp
next
  case (Cons lbl ls)
  from Cons.prems(1) obtain ltr lva lte s1 where
    body: "split_label rk s df lc splits lbl = Inr ((ltr, lva, lte), s1)" and
    rest: "split_loop rk df lc splits ls ((tr @ ltr, va @ lva, te @ lte), s1)
             = Inr ((tr', va', te'), s')"
    by (auto simp: and_then_Inr)
  from Cons.prems(2) have nl: "lbl \<notin> set ls" and dl: "distinct ls" by auto
  from Cons.IH [OF rest dl] obtain atr ava ate where
    ih: "tr' = (tr @ ltr) @ atr" "va' = (va @ lva) @ ava" "te' = (te @ lte) @ ate"
      "mset atr + mset ava + mset ate = mset (covered lc ls df)"
      "\<And>v. Some v \<in> set ls \<Longrightarrow>
         stratum_ok splits (length (select_label lc (Some v) df))
           (length (select_label lc (Some v) atr)) (length (select_label lc (Some v) ate))"
    by blast
  note sl = split_label_Inr [OF d body]
  have sub: "set ltr \<subseteq> set (select_label lc lbl df)" "set lte \<subseteq> set (select_label lc lbl df)"
    using mset3_set [OF sl(1)] by auto
  have subr: "set atr \<subseteq> set (covered lc ls df)" "set ate \<subseteq> set (covered lc ls df)"
    using mset3_set [OF ih(4)] by auto
  have m: "mset (ltr @ atr) + mset (lva @ ava) + mset (lte @ ate) = mset (covered lc (lbl # ls) df)"
  proof -
    have "mset (ltr @ atr) + mset (lva @ ava) + mset (lte @ ate)
        = (mset ltr + mset lva + mset lte) + (mset atr + mset ava + mset ate)"
      by (simp add: ac_simps)
    then show ?thesis using sl(1) ih(4) covered_Cons [OF nl, of lc df] by simp
  qed
  have c: "stratum_ok splits (length (select_label lc (Some v) df))
        (length (select_label lc (Some v) (ltr @ atr)))
        (length (select_label lc (Some v) (lte @ ate)))" if v: "Some v \<in> set (lbl # ls)" for v
  proof (cases "lbl = Some v")
    case True
    then have "Some v \<notin> set ls" using nl by simp
    then have "select_label lc (Some v) atr = []" "select_label lc (Some v) ate = []"
      using subr by (auto intro: select_label_outside)
    moreover have "select_label lc (Some v) ltr = ltr" "select_label lc (Some v) lte = lte"
      using select_label_within [OF sub(1), of v] select_label_within [OF sub(2), of v] True
      by auto
    ultimately show ?thesis using sl(2,3) True by (simp add: stratum_ok_def)
  next
    case False
    then have "Some v \<in> set ls" using v by auto
    moreover have "select_label lc (Some v) ltr = []" "select_label lc (Some v) lte = []"
      using select_label_within [OF sub(1), of v] select_label_within [OF sub(2), of v] False
      by auto
    ultimately show ?thesis using ih(5) by simp
  qed
  show ?case
    using ih(1,2,3) m c by (intro exI [of _ "ltr @ atr"] exI [of _ "lva @ ava"] exI [of _ "lte @ ate"]) simp
qed

lemma set_unique [simp]: "set (unique xs) = set xs"
  by (induction xs rule: unique.induct) auto

lemma distinct_unique [simp]: "distinct (unique xs)"
  by (induction xs rule: unique.induct) auto

lemma covered_all:
  "covered lc (unique (map (\<lambda>x. lc (snd x)) df)) df = filter (\<lambda>x. lc (snd x) \<noteq> None) df"
  unfolding covered_def by (rule filter_cong) (auto simp: cell_eq_def)

lemma length_select_label_mset:
  "mset xs = mset ys \<Longrightarrow> length (select_label lc l xs) = length (select_label lc l ys)"
  unfolding select_label_def by (metis mset_filter size_mset)

lemma split_to_train_val_test_Inr:
  assumes d: "distinct (map fst df)"
    and r: "split_to_train_val_test rk s df lc splits = Inr ((tr, va, te), s')"
  shows "mset tr + mset va + mset te = mset (filter (\<lambda>x. lc (snd x) \<noteq> None) df)"
    and "Some v \<in> (\<lambda>x. lc (snd x)) ` set df \<Longrightarrow>
      stratum_ok splits (length (select_label lc (Some v) df))
        (length (select_label lc (Some v) tr)) (length (select_label lc (Some v) te))"
proof -
  let ?ls = "unique (map (\<lambda>x. lc (snd x)) df)"
  from r obtain tr0 va0 te0 s0 s1 s2 where
    loop: "split_loop rk df lc splits ?ls (([], [], []), s) = Inr ((tr0, va0, te0), s0)" and
    o1: "sample rk s0 (PyInt 1) tr0 = Inr (tr, s1)" and
    o2: "sample rk s1 (PyInt 1) va0 = Inr (va, s2)" and
    o3: "sample rk s2 (PyInt 1) te0 = Inr (te, s')"
    unfolding split_to_train_val_test_def Let_def
    by (auto simp: and_then_Inr split: prod.splits)
  have m: "mset tr = mset tr0" "mset va = mset va0" "mset te = mset te0"
    using sample_all [OF o1] sample_all [OF o2] sample_all [OF o3] by auto
  from split_loop_Inr [OF d loop] have
    inv: "mset tr0 + mset va0 + mset te0 = mset (covered lc ?ls df)"
      "\<And>v. Some v \<in> set ?ls \<Longrightarrow>
        stratum_ok splits (length (select_label lc (Some v) df))
          (length (select_label lc (Some v) tr0)) (length (select_label lc (Some v) te0))"
    by auto
  show "mset tr + mset va + mset te = mset (filter (\<lambda>x. lc (snd x) \<noteq> None) df)"
    using inv(1) m by (simp only: covered_all)
  assume "Some v \<in> (\<lambda>x. lc (snd x)) ` set df"
  then have "Some v \<in> set ?ls" by simp
  from inv(2) [OF this] have "stratum_ok splits (length (select_label lc (Some v) df))
        (length (select_label lc (Some v) tr0)) (length (select_label lc (Some v) te0))" .
  then show "stratum_ok splits (length (select_label lc (Some v) df))
        (length (select_label lc (Some v) tr)) (length (select_label lc (Some v) te))"
    by (simp only: length_select_label_mset [OF m(1), of lc "Some v"]
          length_select_label_mset [OF m(3), of lc "Some v"])
qed

lemma mset3_distinct_index:
  assumes "mset a + mset b + mset c = mset d" "distinct (index d)"
  shows "distinct (index a @ index b @ index c)"
proof -
  have "mset (a @ b @ c) = mset d" using assms(1) by (simp add: ac_simps)
  then have "mset (map fst (a @ b @ c)) = mset (map fst d)" by (metis mset_map)
  then have "distinct (map fst (a @ b @ c))"
    using assms(2) by (metis index_def mset_eq_imp_distinct_iff)
  then show ?thesis by (simp add: index_def)
qed

section \<open>Accuracy of the float operations\<close>

lemma bit_length_bounds:
  "0 < k \<Longrightarrow> 2 ^ (bit_length k - 1) \<le> k \<and> k < 2 ^ bit_length k"
proof (induction k rule: bit_length.induct)
  case (1 k)
  show ?case
  proof (cases "k div 2 = 0")
    case True
    with "1.prems" have k: "k = 1" by presburger
    have "bit_length 1 = Suc 0"
      by (simp add: bit_length.simps [of 1] bit_length.simps [of 0])
    with k show ?thesis by simp
  next
    case False
    with "1.prems" have pos: "0 < k div 2" by presburger
    from "1.IH" "1.prems" pos have ih: "2 ^ (bit_length (k div 2) - 1) \<le> k div 2"
      "k div 2 < 2 ^ bit_length (k div 2)" by auto
    have bl: "bit_length k = Suc (bit_length (k div 2))"
      using "1.prems" by (simp add: bit_length.simps [of k])
    have gt: "0 < bit_length (k div 2)"
      using pos by (simp add: bit_length.simps [of "k div 2"])
    have "(2::int) ^ bit_length (k div 2) = 2 * 2 ^ (bit_length (k div 2) - 1)"
      using gt by (cases "bit_length (k div 2)") auto
    with ih(1) have lo: "2 ^ bit_length (k div 2) \<le> k" by presburger
    from ih(2) have "k div 2 + 1 \<le> 2 ^ bit_length (k div 2)" by simp
    then have hi: "k < 2 * 2 ^ bit_length (k div 2)" by presburger
    from lo hi bl show ?thesis by simp
  qed
qed

lemma pow2_power_int: "pow2 e = power_int 2 e"
  by (simp add: pow2_def power_int_def field_simps)

lemma pow2_pos [simp]: "0 < pow2 e"
  by (simp add: pow2_power_int)

lemma round_half_even_error: "\<bar>of_int (round_half_even x) - x\<bar> \<le> 1 / 2"
  unfolding round_half_even_def Let_def by (auto simp: abs_if) linarith+

lemma round_half_even_near:
  assumes "\<bar>x - of_int k\<bar> < 1 / 2"
  shows "round_half_even x = k"
proof -
  have "\<bar>of_int (round_half_even x) - (of_int k :: rat)\<bar> < 1"
    using round_half_even_error [of x] assms by linarith
  then have "\<bar>of_int (round_half_even x - k) :: rat\<bar> < 1" by simp
  then have "\<bar>round_half_even x - k\<bar> < 1"
    by (metis of_int_abs of_int_less_1_iff)
  then show ?thesis by simp
qed

lemma round_half_even_int [simp]: "round_half_even (of_int k) = k"
  by (rule round_half_even_near) simp

lemma ilog2_le:
  assumes "0 < a"
  shows "pow2 (ilog2 a) \<le> a"
proof -
  obtain n b where q: "quotient_of a = (n, b)" by (cases "quotient_of a")
  then have b: "0 < b" and a: "a = of_int n / of_int b"
    by (auto simp: quotient_of_denom_pos quotient_of_div)
  with assms have n: "0 < n" by (simp add: zero_less_divide_iff)
  let ?d = "int (bit_length n) - int (bit_length b)"
  show ?thesis
  proof (cases "pow2 ?d \<le> a")
    case True
    then show ?thesis by (simp add: ilog2_def q)
  next
    case False
    then have e: "ilog2 a = ?d - 1" by (simp add: ilog2_def q)
    from bit_length_bounds [OF n] have "2 ^ (bit_length n - 1) \<le> n" by simp
    then have "(of_int (2 ^ (bit_length n - 1)) :: rat) \<le> of_int n" by (simp only: of_int_le_iff)
    then have lo: "(2::rat) ^ (bit_length n - 1) \<le> of_int n" by simp
    from bit_length_bounds [OF b] have "b < 2 ^ bit_length b" by simp
    then have "(of_int b :: rat) < of_int (2 ^ bit_length b)" by (simp only: of_int_less_iff)
    then have hi: "(of_int b :: rat) < 2 ^ bit_length b" by simp
    have bn: "0 < bit_length n" using n by (simp add: bit_length.simps [of n])
    have "pow2 (?d - 1) = 2 ^ (bit_length n - 1) / 2 ^ bit_length b"
    proof -
      have "?d - 1 = int (bit_length n - 1) - int (bit_length b)" using bn by simp
      then have "pow2 (?d - 1) = power_int 2 (int (bit_length n - 1) - int (bit_length b))"
        by (simp only: pow2_power_int)
      also have "\<dots> = power_int 2 (int (bit_length n - 1)) / power_int 2 (int (bit_length b))"
        by (simp add: power_int_diff)
      finally show ?thesis by simp
    qed
    also have "\<dots> \<le> of_int n / 2 ^ bit_length b"
      using lo by (simp add: divide_right_mono)
    also have "\<dots> \<le> of_int n / of_int b"
      using hi b n by (intro divide_left_mono) (auto simp: less_imp_le)
    finally show ?thesis using e a by simp
  qed
qed

lemma pow2_nonzero [simp]: "pow2 e \<noteq> 0"
  by (simp add: pow2_power_int)

lemma pow2_nonneg [simp]: "0 \<le> pow2 e"
  by (rule less_imp_le) (rule pow2_pos)

lemma fl_error: "\<bar>fl q - q\<bar> \<le> \<bar>q\<bar> / 2 ^ 53"
proof (cases "q = 0")
  case True
  then show ?thesis by (simp add: fl_def)
next
  case False
  let ?a = "\<bar>q\<bar>"
  let ?u = "pow2 (ilog2 ?a - 52)"
  have pos: "0 < ?a" using False by simp
  have u: "?u = pow2 (ilog2 ?a) / 2 ^ 52"
    by (simp add: pow2_power_int power_int_diff)
  have up: "0 < ?u" by simp
  have "fl q = sgn q * (of_int (round_half_even (?a / ?u)) * ?u)"
    using False by (simp add: fl_def Let_def)
  moreover have "q = sgn q * ?a" by (simp add: sgn_mult_abs)
  ultimately have "fl q - q = sgn q * (of_int (round_half_even (?a / ?u)) * ?u - ?a)"
    by (simp add: algebra_simps)
  then have "\<bar>fl q - q\<bar> = \<bar>of_int (round_half_even (?a / ?u)) * ?u - ?a\<bar>"
    using False by (simp add: abs_mult abs_sgn_eq)
  also have "\<dots> = \<bar>of_int (round_half_even (?a / ?u)) - ?a / ?u\<bar> * ?u"
  proof -
    have "of_int (round_half_even (?a / ?u)) * ?u - ?a
        = (of_int (round_half_even (?a / ?u)) - ?a / ?u) * ?u"
      using up by (simp add: field_simps)
    then show ?thesis using up by (simp only: abs_mult abs_of_pos)
  qed
  also have "\<dots> \<le> 1 / 2 * ?u"
    using round_half_even_error [of "?a / ?u"] up by (intro mult_right_mono) auto
  also have "\<dots> = pow2 (ilog2 ?a) / 2 ^ 53" by (simp add: u)
  also have "\<dots> \<le> ?a / 2 ^ 53"
    using ilog2_le [OF pos] by (simp add: divide_right_mono)
  finally show ?thesis .
qed

lemma fl_int:
  assumes "0 \<le> m" "m < 2 ^ 53"
  shows "fl (of_int m) = of_int m"
proof (cases "m = 0")
  case True
  then show ?thesis by (simp add: fl_def)
next
  case False
  with assms have mp: "0 < m" by simp
  let ?a = "of_int m :: rat"
  let ?e = "ilog2 ?a"
  have "pow2 ?e \<le> ?a" using mp by (intro ilog2_le) simp
  also have "?a < of_int (2 ^ 53)" using assms(2) by (simp only: of_int_less_iff)
  also have "(of_int (2 ^ 53) :: rat) = power_int 2 53" by simp
  finally have "power_int (2::rat) ?e < power_int 2 53" by (simp only: pow2_power_int)
  then have e: "?e < 53"
    by (metis not_less one_le_numeral power_int_increasing)
  define k where "k = nat (52 - ?e)"
  have u: "pow2 (?e - 52) = 1 / 2 ^ k"
    using e by (simp add: pow2_def k_def)
  have "?a / pow2 (?e - 52) = of_int (m * 2 ^ k)" by (simp add: u)
  then have "round_half_even (?a / pow2 (?e - 52)) = m * 2 ^ k"
    by (simp only: round_half_even_int)
  then have "fl ?a = sgn ?a * of_int (m * 2 ^ k) * (1 / 2 ^ k)"
    using mp by (simp add: fl_def Let_def u)
  then show ?thesis using mp by simp
qed

lemma third_of_rows:
  assumes m: "0 \<le> m" "m < 2 ^ 40" and D: "\<bar>D - 1 / 3\<bar> \<le> 1 / 2 ^ 54"
  shows "round_half_even (fl (D * fl (of_int m))) = (m + 1) div 3"
proof -
  let ?m = "of_int m :: rat"
  let ?q = "D * ?m"
  let ?k = "(m + 1) div 3"
  have mb: "?m < 2 ^ 40"
  proof -
    have "?m < of_int (2 ^ 40)" using m(2) by (simp only: of_int_less_iff)
    then show ?thesis by simp
  qed
  have m0: "0 \<le> ?m" using m(1) by simp
  have "m < 2 ^ 53" using m(2) by simp
  then have f: "fl ?m = ?m" using m(1) by (intro fl_int)
  have "?q - ?m / 3 = (D - 1 / 3) * ?m" by (simp add: algebra_simps)
  then have "\<bar>?q - ?m / 3\<bar> = \<bar>D - 1 / 3\<bar> * ?m" using m0 by (simp add: abs_mult)
  also have "\<dots> \<le> 1 / 2 ^ 54 * ?m" using D m0 by (rule mult_right_mono)
  finally have e1: "\<bar>?q - ?m / 3\<bar> \<le> ?m / 2 ^ 54" by simp
  then have "\<bar>?q\<bar> \<le> ?m / 3 + ?m / 2 ^ 54" using m0 by linarith
  moreover have "?m / 3 + ?m / 2 ^ 54 = (1 / 3 + 1 / 2 ^ 54) * ?m" by (simp add: algebra_simps)
  moreover have "(1 / 3 + 1 / 2 ^ 54) * ?m \<le> 1 * ?m"
    using m0 by (intro mult_right_mono) simp_all
  ultimately have qb: "\<bar>?q\<bar> \<le> ?m" by linarith
  have "\<bar>fl ?q - ?q\<bar> \<le> \<bar>?q\<bar> / 2 ^ 53" by (rule fl_error)
  also have "\<dots> \<le> ?m / 2 ^ 53" using qb by (simp add: divide_right_mono)
  finally have e2: "\<bar>fl ?q - ?q\<bar> \<le> ?m / 2 ^ 53" .
  have "3 * ?k \<le> m + 1" "m + 1 < 3 * ?k + 3" by presburger+
  then have "\<bar>m - 3 * ?k\<bar> \<le> 1" by linarith
  then have "\<bar>of_int (m - 3 * ?k) :: rat\<bar> \<le> 1"
    by (metis of_int_abs of_int_le_1_iff)
  then have "\<bar>?m - 3 * of_int ?k\<bar> \<le> 1" by simp
  then have e3: "\<bar>?m / 3 - of_int ?k\<bar> \<le> 1 / 3" by linarith
  have "\<bar>fl ?q - of_int ?k\<bar> \<le> ?m / 2 ^ 53 + ?m / 2 ^ 54 + 1 / 3"
    using e1 e2 e3 by linarith
  also have "\<dots> < 1 / 2"
  proof -
    have "?m / 2 ^ 53 \<le> 2 ^ 40 / 2 ^ 53" "?m / 2 ^ 54 \<le> 2 ^ 40 / 2 ^ 54"
      using mb by (simp_all add: divide_right_mono less_imp_le)
    moreover have "(2::rat) ^ 40 / 2 ^ 53 = 1 / 8192" "(2::rat) ^ 40 / 2 ^ 54 = 1 / 16384"
      by simp_all
    ultimately show ?thesis by linarith
  qed
  finally have "round_half_even (fl ?q) = ?k" by (rule round_half_even_near)
  then show ?thesis by (simp only: f)
qed

lemma test_fraction_rows:
  assumes "0 \<le> m" "m < 2 ^ 40"
  shows "py_round (py_mul (PyFloat (6004799503160661 / 18014398509481984)) (PyInt m))
      = (m + 1) div 3"
    and "py_round (py_mul (PyFloat (3002399751580331 / 9007199254740992)) (PyInt m))
      = (m + 1) div 3"
  using third_of_rows [OF assms, of "6004799503160661 / 18014398509481984"]
    third_of_rows [OF assms, of "3002399751580331 / 9007199254740992"]
  by simp_all

lemma round_half_even_le_int:
  assumes "y \<le> of_int K"
  shows "round_half_even y \<le> K"
proof -
  have f: "\<lfloor>y\<rfloor> \<le> K" using assms by (simp add: floor_le_iff)
  show ?thesis
  proof (cases "y - of_int \<lfloor>y\<rfloor> < 1 / 2")
    case True
    with f show ?thesis by (simp add: round_half_even_def Let_def)
  next
    case False
    then have "of_int \<lfloor>y\<rfloor> < y" by linarith
    with assms have "(of_int \<lfloor>y\<rfloor> :: rat) < of_int K" by linarith
    then have "\<lfloor>y\<rfloor> < K" by (simp only: of_int_less_iff)
    then show ?thesis by (simp add: round_half_even_def Let_def)
  qed
qed

lemma round_half_even_nonneg:
  assumes "0 \<le> y"
  shows "0 \<le> round_half_even y"
proof -
  have "0 \<le> \<lfloor>y\<rfloor>" using assms by simp
  then show ?thesis by (simp add: round_half_even_def Let_def)
qed

lemma fl_nonneg:
  assumes "0 \<le> x"
  shows "0 \<le> fl x"
proof (cases "x = 0")
  case True
  then show ?thesis by (simp add: fl_def)
next
  case False
  with assms have "0 < x" by simp
  then have "0 \<le> \<bar>x\<bar> / pow2 (ilog2 \<bar>x\<bar> - 52)" by simp
  then have "0 \<le> round_half_even (\<bar>x\<bar> / pow2 (ilog2 \<bar>x\<bar> - 52))"
    by (rule round_half_even_nonneg)
  with \<open>0 < x\<close> show ?thesis by (simp add: fl_def Let_def)
qed

lemma fl_le_int:
  assumes "0 \<le> x" "x \<le> of_int N" "N < 2 ^ 53"
  shows "fl x \<le> of_int N"
proof (cases "x = 0")
  case True
  with assms show ?thesis by (simp add: fl_def)
next
  case False
  with assms have xp: "0 < x" by simp
  let ?e = "ilog2 x"
  have "pow2 ?e \<le> x" using xp by (rule ilog2_le)
  also note assms(2)
  also have "(of_int N :: rat) < of_int (2 ^ 53)" using assms(3) by (simp only: of_int_less_iff)
  also have "(of_int (2 ^ 53) :: rat) = power_int 2 53" by simp
  finally have "power_int (2::rat) ?e < power_int 2 53" by (simp only: pow2_power_int)
  then have e: "?e < 53"
    by (metis not_less one_le_numeral power_int_increasing)
  define k where "k = nat (52 - ?e)"
  have u: "pow2 (?e - 52) = 1 / 2 ^ k"
    using e by (simp add: pow2_def k_def)
  have "x / pow2 (?e - 52) = x * 2 ^ k" by (simp add: u)
  also have "\<dots> \<le> of_int N * 2 ^ k" using assms(2) by (simp add: mult_right_mono)
  also have "\<dots> = of_int (N * 2 ^ k)" by simp
  finally have "round_half_even (x / pow2 (?e - 52)) \<le> N * 2 ^ k"
    by (rule round_half_even_le_int)
  then have "(of_int (round_half_even (x / pow2 (?e - 52))) :: rat) \<le> of_int (N * 2 ^ k)"
    by (simp only: of_int_le_iff)
  then have "of_int (round_half_even (x / pow2 (?e - 52))) * (1 / 2 ^ k) \<le> (of_int N :: rat)"
    by (simp add: field_simps)
  with xp show ?thesis by (simp add: fl_def Let_def u)
qed

lemma frac_rows_bounds:
  assumes "0 \<le> q" "q \<le> 1" "n < 2 ^ 53"
  shows "0 \<le> py_round (py_mul (PyFloat q) (PyInt (int n)))"
    and "py_round (py_mul (PyFloat q) (PyInt (int n))) \<le> int n"
proof -
  have n: "int n < 2 ^ 53" using assms(3) by (metis of_nat_less_iff of_nat_numeral of_nat_power)
  have f: "fl (of_nat n) = (of_nat n :: rat)" using fl_int [of "int n"] n by simp
  let ?x = "q * of_nat n"
  have x: "0 \<le> ?x" "?x \<le> of_nat n"
    using assms(1,2) by (simp_all add: mult_left_le_one_le)
  have "0 \<le> fl ?x" using x(1) by (rule fl_nonneg)
  then have "0 \<le> round_half_even (fl ?x)" by (rule round_half_even_nonneg)
  then show "0 \<le> py_round (py_mul (PyFloat q) (PyInt (int n)))"
    by (simp add: f)
  have "fl ?x \<le> of_int (int n)" using fl_le_int [of ?x "int n"] x n by simp
  then have "round_half_even (fl ?x) \<le> int n" by (rule round_half_even_le_int)
  then show "py_round (py_mul (PyFloat q) (PyInt (int n))) \<le> int n"
    by (simp add: f)
qed

lemma split_ratios_eval:
  "fst SPLIT_RATIOS = float_lit (7 / 10)"
  "py_truediv (snd (snd SPLIT_RATIOS)) (py_add (fst (snd SPLIT_RATIOS)) (snd (snd SPLIT_RATIOS)))
     = Inr (PyFloat (6004799503160661 / 18014398509481984))"
  by code_simp+

lemma zero_rows_eval:
  "py_round (py_mul (float_lit (7 / 10)) (PyInt 0)) = 0"
  "py_round (py_mul (PyFloat (6004799503160661 / 18014398509481984)) (PyInt 0)) = 0"
  by code_simp+

section \<open>The split returns\<close>

text \<open>
  With the fractions of the notebook no call of \<open>sample\<close> or \<open>drop\<close> raises, whatever
  the generator does, as long as the dataframe has fewer than \<open>2 ^ 53\<close> rows, the range
  in which a row count is a float.
\<close>

lemma sample_returns:
  assumes "0 \<le> q" "q \<le> 1" "length df < 2 ^ 53"
  shows "\<exists>out s'. sample rk s (PyFloat q) df = Inr (out, s')"
  using assms(2) frac_rows_bounds [OF assms(1,2), of "length df"] assms(3)
  by (auto simp: sample_def Let_def split: prod.splits)

lemma sample_all_returns: "\<exists>out s'. sample rk s (PyInt 1) df = Inr (out, s')"
  by (auto simp: sample_def Let_def split: prod.splits)

lemma selection_subset: "selection out df \<Longrightarrow> set out \<subseteq> set df"
  by (auto simp: selection_def subset_iff)

lemma drop_rows_returns:
  "set out \<subseteq> set df \<Longrightarrow>
   drop_rows df (index out) = Inr (filter (\<lambda>x. fst x \<notin> set (index out)) df)"
  by (auto simp: drop_rows_def index_def)

lemma split_ratios_values:
  "fst SPLIT_RATIOS = PyFloat (3152519739159347 / 4503599627370496)"
  by code_simp

lemma split_label_returns:
  assumes "length df < 2 ^ 53"
  shows "\<exists>r. split_label rk s df lc SPLIT_RATIOS lbl = Inr r"
proof -
  let ?L = "select_label lc lbl df"
  have lL: "length ?L < 2 ^ 53"
    using assms le_less_trans [OF length_filter_le] by (simp add: select_label_def)
  obtain ltr s1 where a: "sample rk s (fst SPLIT_RATIOS) ?L = Inr (ltr, s1)"
    using sample_returns [OF _ _ lL, of "3152519739159347 / 4503599627370496" rk s]
    by (auto simp: split_ratios_values)
  let ?vt = "filter (\<lambda>x. fst x \<notin> set (index ltr)) ?L"
  have b: "drop_rows ?L (index ltr) = Inr ?vt"
    using selection_subset [OF sample_Inr(1) [OF a]] by (rule drop_rows_returns)
  have lv: "length ?vt < 2 ^ 53"
    using lL le_less_trans [OF length_filter_le] by blast
  obtain lte s2 where c: "sample rk s1 (PyFloat (6004799503160661 / 18014398509481984)) ?vt
      = Inr (lte, s2)"
    using sample_returns [OF _ _ lv, of "6004799503160661 / 18014398509481984" rk s1]
    by auto
  have d: "drop_rows ?vt (index lte) = Inr (filter (\<lambda>x. fst x \<notin> set (index lte)) ?vt)"
    using selection_subset [OF sample_Inr(1) [OF c]] by (rule drop_rows_returns)
  show ?thesis
    unfolding split_label_def Let_def
    by (simp only: a b c d split_ratios_eval(2) and_then.simps prod.case) blast
qed

lemma split_loop_returns:
  assumes "length df < 2 ^ 53"
  shows "\<exists>r. split_loop rk df lc SPLIT_RATIOS ls acc = Inr r"
proof (induction ls arbitrary: acc)
  case Nil
  then show ?case by simp
next
  case (Cons lbl ls)
  obtain tr va te s where acc: "acc = ((tr, va, te), s)" by (metis prod.exhaust)
  obtain ltr lva lte s1 where
    b: "split_label rk s df lc SPLIT_RATIOS lbl = Inr ((ltr, lva, lte), s1)"
    using split_label_returns [OF assms, of rk s lc lbl] by (metis prod.exhaust)
  show ?case using Cons.IH by (simp add: acc b)
qed

lemma split_returns:
  assumes "length df < 2 ^ 53"
  shows "\<exists>r. split_to_train_val_test rk s df lc SPLIT_RATIOS = Inr r"
proof -
  obtain tr va te s0 where
    a: "split_loop rk df lc SPLIT_RATIOS (unique (map (\<lambda>x. lc (snd x)) df)) (([], [], []), s)
      = Inr ((tr, va, te), s0)"
    using split_loop_returns [OF assms] by (metis prod.exhaust)
  obtain tr' s1 where b: "sample rk s0 (PyInt 1) tr = Inr (tr', s1)"
    using sample_all_returns [of rk s0 tr] by blast
  obtain va' s2 where c: "sample rk s1 (PyInt 1) va = Inr (va', s2)"
    using sample_all_returns [of rk s1 va] by blast
  obtain te' s3 where d: "sample rk s2 (PyInt 1) te = Inr (te', s3)"
    using sample_all_returns [of rk s2 te] by blast
  show ?thesis
    unfolding split_to_train_val_test_def Let_def
    by (simp only: a b c d and_then.simps prod.case) blast
qed

lemma get_train_val_dataframes_returns:
  assumes "length (labelled_table sample_only images labels) < 2 ^ 53"
  shows "\<exists>r. get_train_val_dataframes rk s sample_only images labels = Inr r"
  unfolding get_train_val_dataframes_def using assms by (rule split_returns)

section \<open>Claims about the split\<close>

text \<open>
  C1, as amended. For every dataframe whose row indices are pairwise distinct and whose
  label column has no missing value, the three dataframes returned by
  \<open>split_to_train_val_test\<close> are pairwise disjoint and together contain exactly the
  rows of the input, so their sizes add up to the number of rows of the input. This
  holds for every generator state and for all split fractions with which the function
  returns.
\<close>

theorem split_partition:
  assumes "distinct (index df)"
    and "\<forall>x \<in> set df. label_column (snd x) \<noteq> None"
    and "split_to_train_val_test rk s df label_column splits = Inr ((train, val, test), s')"
  shows "mset train + mset val + mset test = mset df
    \<and> distinct (index train @ index val @ index test)
    \<and> set train \<inter> set val = {} \<and> set train \<inter> set test = {} \<and> set val \<inter> set test = {}
    \<and> length train + length val + length test = length df"
proof -
  have d: "distinct (map fst df)" using assms(1) by (simp add: index_def)
  have f: "filter (\<lambda>x. label_column (snd x) \<noteq> None) df = df" using assms(2) by simp
  have m: "mset train + mset val + mset test = mset df"
    using split_to_train_val_test_Inr(1) [OF d assms(3)] by (simp only: f)
  have di: "distinct (index train @ index val @ index test)"
    using mset3_distinct_index [OF m assms(1)] .
  have "size (mset train + mset val + mset test) = size (mset df)" using m by simp
  then have l: "length train + length val + length test = length df" by simp
  have "set train \<inter> set val = {}" "set train \<inter> set test = {}" "set val \<inter> set test = {}"
    using di by (auto simp: index_def)
  with m di l show ?thesis by simp
qed

lemma split_example_eval:
  "split_to_train_val_test rk_example 0 frame_example label_of SPLIT_RATIOS
     = Inr (([(1, Some 2), (4, Some 1), (5, Some 1), (0, Some 1), (6, Some 1)],
             [(2, Some 1)], [(3, Some 1)]), 30)"
  by code_simp

theorem split_partition_witness:
  "distinct (index frame_example)
   \<and> None \<notin> set (map (\<lambda>x. label_of (snd x)) frame_example)
   \<and> split_to_train_val_test rk_example 0 frame_example label_of SPLIT_RATIOS
       = Inr (([(1, Some 2), (4, Some 1), (5, Some 1), (0, Some 1), (6, Some 1)],
               [(2, Some 1)], [(3, Some 1)]), 30)
   \<and> (mset [(1, Some 2), (4, Some 1), (5, Some 1), (0, Some 1), (6, Some 1)]
         + mset [(2, Some 1)] + mset [(3, Some 1)] = mset frame_example
      \<and> distinct (index [(1, Some 2), (4, Some 1), (5, Some 1), (0, Some 1), (6, Some (1::nat))]
           @ index [(2::nat, Some (1::nat))] @ index [(3::nat, Some (1::nat))])
      \<and> length [(1::nat, Some (2::nat)), (4, Some 1), (5, Some 1), (0, Some 1), (6, Some 1)]
           + length [(2::nat, Some (1::nat))] + length [(3::nat, Some (1::nat))]
         = length frame_example)"
proof -
  have h1: "distinct (index frame_example)" by code_simp
  have h2: "\<forall>x \<in> set frame_example. label_of (snd x) \<noteq> None" by code_simp
  note h3 = split_example_eval
  have h2': "None \<notin> set (map (\<lambda>x. label_of (snd x)) frame_example)" by code_simp
  show ?thesis using h1 h2' h3 split_partition [OF h1 h2 h3] by blast
qed

text \<open>
  C1 as stated fails on a dataframe with a missing label: the only row has a distinct
  index, and it is in none of the three returned dataframes.
\<close>

theorem split_partition_counterexample:
  "distinct (index frame_missing)
   \<and> split_to_train_val_test rk_example 0 frame_missing label_of SPLIT_RATIOS
       = Inr (([], [], []), 0)
   \<and> length frame_missing = 1"
  by code_simp

lemma select_label_filter_present:
  "select_label lc (Some l) (filter (\<lambda>x. lc (snd x) \<noteq> None) df) = select_label lc (Some l) df"
  unfolding select_label_def by (auto simp: cell_eq_def intro: filter_cong)

lemma mset_select_label: "mset (select_label lc l xs) = filter_mset (\<lambda>x. cell_eq (lc (snd x)) l) (mset xs)"
  by (simp add: select_label_def)

lemma select_label_split:
  assumes "mset tr + mset va + mset te = mset (filter (\<lambda>x. lc (snd x) \<noteq> None) df)"
  shows "mset (select_label lc (Some l) tr) + mset (select_label lc (Some l) va)
      + mset (select_label lc (Some l) te) = mset (select_label lc (Some l) df)"
proof -
  have "filter_mset (\<lambda>x. cell_eq (lc (snd x)) (Some l)) (mset tr + mset va + mset te)
      = mset (select_label lc (Some l) (filter (\<lambda>x. lc (snd x) \<noteq> None) df))"
    by (simp only: assms mset_select_label)
  then show ?thesis
    by (simp only: select_label_filter_present mset_select_label filter_union_mset)
qed

lemma claimed_fraction_eval:
  "py_truediv (float_lit (1 / 10)) (float_lit (3 / 10))
     = Inr (PyFloat (3002399751580331 / 9007199254740992))"
  by code_simp

text \<open>
  C2, as amended. For every dataframe whose row indices are pairwise distinct and every
  label value \<open>l\<close> with \<open>n\<close> rows, each output of
  \<open>split_to_train_val_test(df, label_column, (0.7, 0.2, 0.1))\<close> takes its rows labelled
  \<open>l\<close> from the rows of the input labelled \<open>l\<close>, no row is drawn twice, train receives
  \<open>round(0.7 * n)\<close> of them, test receives \<open>round(f * (n - round(0.7 * n)))\<close>, where
  \<open>f = 0.1 / (0.2 + 0.1)\<close> in float arithmetic is \<open>6004799503160661 / 2 ^ 54\<close>, and
  val receives the rest. The float \<open>0.1 / 0.3\<close> is \<open>3002399751580331 / 2 ^ 53\<close>, one
  unit in the last place above \<open>f\<close>; for \<open>n < 2 ^ 40\<close> it gives test the same number
  of rows.
\<close>

theorem split_stratified:
  assumes "distinct (index df)"
    and "split_to_train_val_test rk s df label_column SPLIT_RATIOS = Inr ((train, val, test), s')"
  shows "set (select_label label_column (Some l) train) \<subseteq> set (select_label label_column (Some l) df)
    \<and> set (select_label label_column (Some l) val) \<subseteq> set (select_label label_column (Some l) df)
    \<and> set (select_label label_column (Some l) test) \<subseteq> set (select_label label_column (Some l) df)
    \<and> distinct (index train @ index val @ index test)
    \<and> int (length (select_label label_column (Some l) train))
        = py_round (py_mul (float_lit (7 / 10))
            (PyInt (int (length (select_label label_column (Some l) df)))))
    \<and> int (length (select_label label_column (Some l) test))
        = py_round (py_mul (PyFloat (6004799503160661 / 18014398509481984))
            (PyInt (int (length (select_label label_column (Some l) df)
               - length (select_label label_column (Some l) train)))))
    \<and> length (select_label label_column (Some l) val)
        = length (select_label label_column (Some l) df)
          - length (select_label label_column (Some l) train)
          - length (select_label label_column (Some l) test)
    \<and> (length (select_label label_column (Some l) df) < 2 ^ 40 \<longrightarrow>
         int (length (select_label label_column (Some l) test))
           = py_round (py_mul (PyFloat (3002399751580331 / 9007199254740992))
               (PyInt (int (length (select_label label_column (Some l) df)
                  - length (select_label label_column (Some l) train))))))"
proof -
  let ?sel = "select_label label_column (Some l)"
  have d: "distinct (map fst df)" using assms(1) by (simp add: index_def)
  note r = split_to_train_val_test_Inr [OF d assms(2)]
  have m: "mset (?sel train) + mset (?sel val) + mset (?sel test) = mset (?sel df)"
    using r(1) by (rule select_label_split)
  have sub: "set (?sel train) \<subseteq> set (?sel df)" "set (?sel val) \<subseteq> set (?sel df)"
    "set (?sel test) \<subseteq> set (?sel df)"
    using mset3_set [OF m] by auto
  have "size (mset (?sel train) + mset (?sel val) + mset (?sel test)) = size (mset (?sel df))"
    using m by simp
  then have len: "length (?sel val) = length (?sel df) - length (?sel train) - length (?sel test)"
    by simp
  have "mset train + mset val + mset test = mset (filter (\<lambda>x. label_column (snd x) \<noteq> None) df)"
    using r(1) .
  moreover have "distinct (index (filter (\<lambda>x. label_column (snd x) \<noteq> None) df))"
    using d by (simp add: index_def distinct_map_filter)
  ultimately have di: "distinct (index train @ index val @ index test)"
    by (rule mset3_distinct_index)
  have cnt: "int (length (?sel train))
        = py_round (py_mul (float_lit (7 / 10)) (PyInt (int (length (?sel df)))))
      \<and> int (length (?sel test))
        = py_round (py_mul (PyFloat (6004799503160661 / 18014398509481984))
            (PyInt (int (length (?sel df) - length (?sel train)))))"
  proof (cases "Some l \<in> (\<lambda>x. label_column (snd x)) ` set df")
    case True
    from r(2) [OF True] show ?thesis
      by (simp add: stratum_ok_def split_ratios_eval)
  next
    case False
    then have "?sel df = []"
      by (force simp: select_label_def cell_eq_def filter_empty_conv image_iff)
    with sub have e: "?sel df = []" "?sel train = []" "?sel test = []" by auto
    show ?thesis unfolding e
      by (simp only: list.size of_nat_0 minus_nat.diff_0 zero_rows_eval simp_thms)
  qed
  have alt: "int (length (?sel test))
      = py_round (py_mul (PyFloat (3002399751580331 / 9007199254740992))
          (PyInt (int (length (?sel df) - length (?sel train)))))"
    if "length (?sel df) < 2 ^ 40"
  proof -
    let ?m = "int (length (?sel df) - length (?sel train))"
    have "?m \<le> int (length (?sel df))" by simp
    also have "\<dots> < 2 ^ 40" using that by (metis of_nat_less_iff of_nat_numeral of_nat_power)
    finally have m: "0 \<le> ?m" "?m < 2 ^ 40" by simp_all
    show ?thesis
      using cnt by (simp only: test_fraction_rows [OF m])
  qed
  from sub di cnt len alt show ?thesis by blast
qed

theorem split_stratified_witness:
  "distinct (index frame_example)
   \<and> split_to_train_val_test rk_example 0 frame_example label_of SPLIT_RATIOS
       = Inr (([(1, Some 2), (4, Some 1), (5, Some 1), (0, Some 1), (6, Some 1)],
               [(2, Some 1)], [(3, Some 1)]), 30)
   \<and> length (select_label label_of (Some 1) frame_example) = 6
   \<and> length (select_label label_of (Some 1)
        [(1::nat, Some 2), (4, Some 1), (5, Some 1), (0, Some 1), (6, Some 1)]) = 4
   \<and> length (select_label label_of (Some 1) [(3::nat, Some 1)]) = 1
   \<and> length (select_label label_of (Some 1) [(2::nat, Some 1)]) = 1
   \<and> py_round (py_mul (float_lit (7 / 10)) (PyInt 6)) = 4
   \<and> py_round (py_mul (PyFloat (6004799503160661 / 18014398509481984)) (PyInt (6 - 4))) = 1"
proof -
  have h1: "distinct (index frame_example)" by code_simp
  note h2 = split_example_eval
  have n: "length (select_label label_of (Some 1) frame_example) = 6" by code_simp
  have a: "length (select_label label_of (Some 1)
        [(1::nat, Some 2), (4, Some 1), (5, Some 1), (0, Some 1), (6, Some 1)]) = 4" by code_simp
  have c: "length (select_label label_of (Some 1) [(3::nat, Some 1)]) = 1" by code_simp
  have b: "length (select_label label_of (Some 1) [(2::nat, Some 1)]) = 1" by code_simp
  from split_stratified [OF h1 h2, of 1] h1 h2 n a b c show ?thesis by simp
qed

text \<open>
  C2 as stated fails on a dataframe whose rows share one index label: of the six rows
  with the label, four go to train, and dropping them by index label removes the other
  two as well, so that test and val stay empty where the claim gives test one row and val
  the rest.
\<close>

theorem split_stratified_counterexample:
  "split_to_train_val_test rk_example 0 frame_same_index label_of SPLIT_RATIOS
       = Inr (([(0, Some 1), (0, Some 1), (0, Some 1), (0, Some 1)], [], []), 24)
   \<and> length (select_label label_of (Some 1) frame_same_index) = 6
   \<and> py_round (py_mul (float_lit (7 / 10)) (PyInt 6)) = 4
   \<and> py_truediv (float_lit (1 / 10)) (float_lit (3 / 10))
       = Inr (PyFloat (3002399751580331 / 9007199254740992))
   \<and> py_round (py_mul (PyFloat (3002399751580331 / 9007199254740992)) (PyInt (6 - 4))) = 1
   \<and> py_round (py_mul (PyFloat (6004799503160661 / 18014398509481984)) (PyInt (6 - 4))) = 1"
  by code_simp

section \<open>The tally loop\<close>

lemma seq_eval_expr:
  "seq (eval_expr r) f st = (case r of Inl e \<Rightarrow> (Inl e, st) | Inr x \<Rightarrow> f x st)"
  by (simp add: seq_def eval_expr_def split: sum.splits)

lemma seq_assign: "seq (assign g) f st = f () (g st)"
  by (simp add: seq_def assign_def)

lemma try_body_outcome:
  "try_body cnl load entry st =
     (case entry_outcome cnl load entry of
        Inl e \<Rightarrow> (Inl e, st)
      | Inr r \<Rightarrow> (Inr (), record_outcome r st))"
  unfolding try_body_def entry_outcome_def
  by (simp add: seq_eval_expr seq_assign assign_def record_outcome_def Let_def
        split: sum.splits)

lemma loop_step_outcome:
  "loop_step cnl load st entry =
     (case entry_outcome cnl load entry of
        Inl e \<Rightarrow> st\<lparr>printed := printed st @ [e]\<rparr>
      | Inr r \<Rightarrow> record_outcome r st)"
  by (simp add: loop_step_def try_body_outcome split: sum.splits)












lemma loop_step_tallies:
  "tallies st = tallies st2 \<Longrightarrow>
   tallies (loop_step cnl load st x) = tallies (loop_step cnl load st2 x)"
  by (auto simp: loop_step_outcome tallies_def record_outcome_def split: sum.splits)

lemma foldl_tallies:
  "tallies st = tallies st2 \<Longrightarrow>
   tallies (foldl (loop_step cnl load) st xs) = tallies (foldl (loop_step cnl load) st2 xs)"
proof (induction xs arbitrary: st st2)
  case Nil
  then show ?case by simp
next
  case (Cons x xs)
  have "tallies (loop_step cnl load st x) = tallies (loop_step cnl load st2 x)"
    using Cons.prems by (rule loop_step_tallies)
  then have "tallies (foldl (loop_step cnl load) (loop_step cnl load st x) xs)
      = tallies (foldl (loop_step cnl load) (loop_step cnl load st2 x) xs)"
    by (rule Cons.IH)
  then show ?case by simp
qed

lemma aligned_step: "aligned st \<Longrightarrow> aligned (loop_step cnl load st x)"
  by (auto simp: aligned_def loop_step_outcome record_outcome_def split: sum.splits)

lemma aligned_foldl: "aligned st \<Longrightarrow> aligned (foldl (loop_step cnl load) st xs)"
  by (induction xs arbitrary: st) (auto intro: aligned_step)

lemma total_mono_step: "total st \<le> total (loop_step cnl load st x)"
  by (auto simp: loop_step_outcome record_outcome_def split: sum.splits)

lemma total_mono_foldl: "total st \<le> total (foldl (loop_step cnl load) st xs)"
proof (induction xs arbitrary: st)
  case Nil
  then show ?case by simp
next
  case (Cons x xs)
  have "total st \<le> total (loop_step cnl load st x)" by (rule total_mono_step)
  also have "\<dots> \<le> total (foldl (loop_step cnl load) (loop_step cnl load st x) xs)"
    by (rule Cons.IH)
  finally show ?case by simp
qed

lemma all_fail_total:
  "(\<forall>x \<in> set xs. \<exists>e. entry_outcome cnl load x = Inl e) \<Longrightarrow>
   total (foldl (loop_step cnl load) st xs) = total st"
  by (induction xs arbitrary: st) (auto simp: loop_step_outcome)

lemma try_body_fails:
  "fst (try_body cnl load entry st) = Inl e \<longleftrightarrow> entry_outcome cnl load entry = Inl e"
  by (auto simp: try_body_outcome split: sum.splits)

section \<open>Claims about the tally loop\<close>




text \<open>
  C4. If processing a file raises an exception, the loop prints the error and continues
  with the remaining files, and the failed file contributes nothing to the tallies: after
  the loop, \<open>total\<close>, \<open>correct\<close>, \<open>predicted\<close> and \<open>actual\<close> are what they would be
  if the file were absent.
\<close>

theorem failed_entry_skipped:
  assumes "fst (try_body class_name_list load entry st) = Inl e"
  shows "aggregate class_name_list load (before @ entry # after)
      = foldl (loop_step class_name_list load)
          ((aggregate class_name_list load before)
             \<lparr>printed := printed (aggregate class_name_list load before) @ [e]\<rparr>) after
    \<and> total (aggregate class_name_list load (before @ entry # after))
        = total (aggregate class_name_list load (before @ after))
    \<and> correct (aggregate class_name_list load (before @ entry # after))
        = correct (aggregate class_name_list load (before @ after))
    \<and> predicted (aggregate class_name_list load (before @ entry # after))
        = predicted (aggregate class_name_list load (before @ after))
    \<and> actual (aggregate class_name_list load (before @ entry # after))
        = actual (aggregate class_name_list load (before @ after))"
proof -
  let ?step = "loop_step class_name_list load"
  let ?b = "aggregate class_name_list load before"
  let ?b' = "?b\<lparr>printed := printed ?b @ [e]\<rparr>"
  from assms have o: "entry_outcome class_name_list load entry = Inl e"
    by (simp add: try_body_fails)
  then have s: "?step ?b entry = ?b'" by (simp add: loop_step_outcome)
  have A: "aggregate class_name_list load (before @ entry # after) = foldl ?step ?b' after"
    using s by (simp add: aggregate_def)
  have B: "aggregate class_name_list load (before @ after) = foldl ?step ?b after"
    by (simp add: aggregate_def)
  have "tallies ?b' = tallies ?b" by (simp add: tallies_def)
  then have "tallies (foldl ?step ?b' after) = tallies (foldl ?step ?b after)"
    by (rule foldl_tallies)
  then have "tallies (aggregate class_name_list load (before @ entry # after))
      = tallies (aggregate class_name_list load (before @ after))"
    by (simp only: A B)
  then show ?thesis using A by (simp add: tallies_def)
qed

theorem failed_entry_skipped_witness:
  "fst (try_body [''a'', ''b''] load_example ''batch_predictions/a/z.jpg.out'' initial_tally)
     = Inl TypeError
   \<and> aggregate [''a'', ''b''] load_example
        ([''batch_predictions/a/y.jpg.out''] @ ''batch_predictions/a/z.jpg.out''
           # [''batch_predictions/b/x.jpg.out''])
     = \<lparr>total = 2, correct = 1, predicted = [0, 0], actual = [0, 1], printed = [TypeError]\<rparr>
   \<and> aggregate [''a'', ''b''] load_example
        ([''batch_predictions/a/y.jpg.out''] @ [''batch_predictions/b/x.jpg.out''])
     = \<lparr>total = 2, correct = 1, predicted = [0, 0], actual = [0, 1], printed = []\<rparr>
   \<and> total (aggregate [''a'', ''b''] load_example
        ([''batch_predictions/a/y.jpg.out''] @ ''batch_predictions/a/z.jpg.out''
           # [''batch_predictions/b/x.jpg.out'']))
     = total (aggregate [''a'', ''b''] load_example
        ([''batch_predictions/a/y.jpg.out''] @ [''batch_predictions/b/x.jpg.out'']))
   \<and> predicted (aggregate [''a'', ''b''] load_example
        ([''batch_predictions/a/y.jpg.out''] @ ''batch_predictions/a/z.jpg.out''
           # [''batch_predictions/b/x.jpg.out'']))
     = predicted (aggregate [''a'', ''b''] load_example
        ([''batch_predictions/a/y.jpg.out''] @ [''batch_predictions/b/x.jpg.out'']))"
proof -
  have h: "fst (try_body [''a'', ''b''] load_example ''batch_predictions/a/z.jpg.out''
      initial_tally) = Inl TypeError"
    by code_simp
  have a: "aggregate [''a'', ''b''] load_example
        ([''batch_predictions/a/y.jpg.out''] @ ''batch_predictions/a/z.jpg.out''
           # [''batch_predictions/b/x.jpg.out''])
     = \<lparr>total = 2, correct = 1, predicted = [0, 0], actual = [0, 1], printed = [TypeError]\<rparr>"
    by code_simp
  have b: "aggregate [''a'', ''b''] load_example
        ([''batch_predictions/a/y.jpg.out''] @ [''batch_predictions/b/x.jpg.out''])
     = \<lparr>total = 2, correct = 1, predicted = [0, 0], actual = [0, 1], printed = []\<rparr>"
    by code_simp
  from failed_entry_skipped [OF h, of "[''batch_predictions/a/y.jpg.out'']"
      "[''batch_predictions/b/x.jpg.out'']"] h a b
  show ?thesis by blast
qed

text \<open>
  C7. After the loop the lists \<open>predicted\<close> and \<open>actual\<close> have the same length, that
  length is \<open>total\<close>, and \<open>correct\<close> is at most \<open>total\<close>, whatever the files are and
  whichever of them raise.
\<close>

theorem tallies_aligned:
  "length (predicted (aggregate class_name_list load entries))
     = length (actual (aggregate class_name_list load entries))
   \<and> int (length (predicted (aggregate class_name_list load entries)))
     = total (aggregate class_name_list load entries)
   \<and> correct (aggregate class_name_list load entries)
     \<le> total (aggregate class_name_list load entries)"
proof -
  have "aligned initial_tally" by (simp add: aligned_def initial_tally_def)
  then have "aligned (aggregate class_name_list load entries)"
    unfolding aggregate_def by (rule aligned_foldl)
  then show ?thesis by (simp add: aligned_def)
qed

text \<open>
  C8. When \<open>total\<close> is still 0 after the loop, which is the case when every file
  raises and in particular when there is no file, \<open>correct / total\<close> raises
  ZeroDivisionError and yields no value.
\<close>

theorem accuracy_division_by_zero:
  "(total (aggregate class_name_list load entries) = 0 \<longrightarrow>
      accuracy (aggregate class_name_list load entries) = Inl ZeroDivisionError)
   \<and> ((\<forall>entry \<in> set entries. \<exists>e. fst (try_body class_name_list load entry initial_tally) = Inl e)
      \<longrightarrow> total (aggregate class_name_list load entries) = 0)"
proof (intro conjI impI)
  assume "total (aggregate class_name_list load entries) = 0"
  then show "accuracy (aggregate class_name_list load entries) = Inl ZeroDivisionError"
    by (simp add: accuracy_def)
next
  assume "\<forall>entry \<in> set entries. \<exists>e. fst (try_body class_name_list load entry initial_tally) = Inl e"
  then have "\<forall>x \<in> set entries. \<exists>e. entry_outcome class_name_list load x = Inl e"
    by (simp add: try_body_fails)
  then have "total (foldl (loop_step class_name_list load) initial_tally entries) = total initial_tally"
    by (rule all_fail_total)
  then show "total (aggregate class_name_list load entries) = 0"
    by (simp add: aggregate_def initial_tally_def)
qed

theorem accuracy_division_by_zero_witness:
  "fst (try_body [''a'', ''b''] load_example ''batch_predictions/a/z.jpg.out'' initial_tally)
     = Inl TypeError
   \<and> total (aggregate [''a'', ''b''] load_example [''batch_predictions/a/z.jpg.out'']) = 0
   \<and> accuracy (aggregate [''a'', ''b''] load_example [''batch_predictions/a/z.jpg.out''])
     = Inl ZeroDivisionError"
proof -
  have h: "fst (try_body [''a'', ''b''] load_example ''batch_predictions/a/z.jpg.out''
      initial_tally) = Inl TypeError"
    by code_simp
  then have "\<forall>entry \<in> set [''batch_predictions/a/z.jpg.out''].
      \<exists>e. fst (try_body [''a'', ''b''] load_example entry initial_tally) = Inl e"
    by simp
  with accuracy_division_by_zero [of "[''a'', ''b'']" load_example
      "[''batch_predictions/a/z.jpg.out'']"] h
  show ?thesis by blast
qed

section \<open>The image table\<close>

lemma index_range_frame: "index (range_frame rows) = [0..<length rows]"
  by (simp add: index_def range_frame_def)

lemma snd_range_frame: "map snd (range_frame rows) = rows"
  by (simp add: range_frame_def)

lemma set_range_frame: "x \<in> set (range_frame rows) \<Longrightarrow> snd x \<in> set rows"
  using snd_range_frame [of rows] by (metis image_eqI set_map)

lemma set_reset_index: "x \<in> set (reset_index df) \<Longrightarrow> snd x \<in> snd ` set df"
  unfolding reset_index_def by (drule set_range_frame) simp

lemma index_reset_index: "index (reset_index df) = [0..<length df]"
  by (simp add: reset_index_def index_range_frame)

lemma merge_rows:
  assumes "x \<in> set (merge_on_pretty_name left right)"
  shows "\<exists>l \<in> set left. fst (snd (snd x)) = snd (snd l)"
proof -
  from assms have "snd x \<in> set (concat (map (\<lambda>l. map (\<lambda>r. (fst (snd l), snd (snd l), snd (snd r)))
       (filter (\<lambda>r. fst (snd r) = fst (snd l)) right)) left))"
    unfolding merge_on_pretty_name_def by (rule set_range_frame)
  then show ?thesis by force
qed

lemma filtered_table_not_excluded:
  assumes "x \<in> set (filtered_table sample_only images labels)"
  shows "fst (snd (snd x)) \<notin> set EXCLUDE_IMAGE_LIST"
proof -
  let ?left = "reset_index (filter (\<lambda>x. \<not> isin (snd (snd x)) EXCLUDE_IMAGE_LIST) (range_frame images))"
  from assms have "x \<in> set (merge_on_pretty_name ?left (range_frame labels))"
    by (auto simp: filtered_table_def Let_def split: if_splits)
  then obtain l where l: "l \<in> set ?left" "fst (snd (snd x)) = snd (snd l)"
    using merge_rows by blast
  from set_reset_index [OF l(1)] have "\<not> isin (snd (snd l)) EXCLUDE_IMAGE_LIST" by auto
  with l(2) show ?thesis by (simp add: isin_def)
qed

lemma labelled_table_rows:
  assumes "x \<in> set (labelled_table sample_only images labels)"
  shows "\<exists>y \<in> set (filtered_table sample_only images labels).
     image_file_name (snd x) = fst (snd (snd y))
   \<and> orig_class_id (snd x) = snd (snd (snd y))
   \<and> class_id (snd x) = id_to_one_based
        (sorted_unique_classes (filtered_table sample_only images labels)) (snd (snd (snd y)))"
proof -
  let ?ft = "filtered_table sample_only images labels"
  from assms obtain z where z: "z \<in> set (reset_index ?ft)"
    and x: "x = (fst z,
            \<lparr>image_file_name = fst (snd (snd z)),
             orig_class_id = snd (snd (snd z)),
             class_id = id_to_one_based (sorted_unique_classes ?ft) (snd (snd (snd z))),
             class_name = get_class_name (fst (snd (snd z)))\<rparr>)"
    by (auto simp: labelled_table_def Let_def)
  from set_reset_index [OF z] obtain y where y: "y \<in> set ?ft" "snd z = snd y" by auto
  with x show ?thesis by (intro bexI [of _ y]) auto
qed

lemma index_labelled_table:
  "distinct (index (labelled_table sample_only images labels))"
  by (simp add: labelled_table_def Let_def index_def comp_def
        index_reset_index [unfolded index_def])

lemma outputs_from_table:
  assumes "get_train_val_dataframes rk s sample_only images labels
     = Inr ((train_df, val_df, test_df), s')"
  shows "set train_df \<union> set val_df \<union> set test_df \<subseteq> set (labelled_table sample_only images labels)"
proof -
  let ?df = "labelled_table sample_only images labels"
  have d: "distinct (map fst ?df)"
    using index_labelled_table [of sample_only images labels] by (simp add: index_def)
  from assms have r: "split_to_train_val_test rk s ?df class_id SPLIT_RATIOS
      = Inr ((train_df, val_df, test_df), s')"
    by (simp add: get_train_val_dataframes_def)
  from mset3_set [OF split_to_train_val_test_Inr(1) [OF d r]] show ?thesis by auto
qed

lemma id_to_one_based_loop_other:
  "c \<notin> set cs \<Longrightarrow> id_to_one_based_loop cs i m c = m c"
  by (induction cs arbitrary: i m) auto

lemma id_to_one_based_loop_nth:
  "distinct cs \<Longrightarrow> j < length cs \<Longrightarrow>
   id_to_one_based_loop cs i m (cs ! j) = Some (py_str (i + int j))"
proof (induction cs arbitrary: i m j)
  case Nil
  then show ?case by simp
next
  case (Cons c cs)
  show ?case
  proof (cases j)
    case 0
    with Cons.prems show ?thesis by (simp add: id_to_one_based_loop_other)
  next
    case (Suc j')
    with Cons.prems have "id_to_one_based_loop cs (i + 1) (m(c \<mapsto> py_str i)) (cs ! j')
        = Some (py_str (i + 1 + int j'))"
      by (intro Cons.IH) auto
    with Suc show ?thesis by (simp add: ac_simps)
  qed
qed

lemma sorted_unique_classes_props:
  "sorted (sorted_unique_classes df)" "distinct (sorted_unique_classes df)"
  "set (sorted_unique_classes df) = (\<lambda>x. snd (snd (snd x))) ` set df"
  by (simp_all add: sorted_unique_classes_def)

section \<open>Claims about the image table\<close>

lemma table_example_eval:
  "get_train_val_dataframes rk_example 0 False images_example labels_example
     = Inr (([(0, \<lparr>image_file_name = ''013.Bobolink/a.jpg'', orig_class_id = 13,
                     class_id = Some ''1'', class_name = ''013.Bobolink''\<rparr>),
              (3, \<lparr>image_file_name = ''087.Mallard/x.jpg'', orig_class_id = 87,
                     class_id = Some ''3'', class_name = ''087.Mallard''\<rparr>),
              (2, \<lparr>image_file_name = ''017.Cardinal/c.jpg'', orig_class_id = 17,
                     class_id = Some ''2'', class_name = ''017.Cardinal''\<rparr>)],
             [(1, \<lparr>image_file_name = ''013.Bobolink/b.jpg'', orig_class_id = 13,
                     class_id = Some ''1'', class_name = ''013.Bobolink''\<rparr>)],
             []), 9)"
  by code_simp

text \<open>
  C5. The distinct original class ids that remain after filtering are mapped, in
  increasing order, to the strings of 1, 2, \<dots>, k, where k is their number, and every
  row of the three dataframes returned by \<open>get_train_val_dataframes\<close> carries as
  \<open>class_id\<close> the string that its original class id is mapped to.
\<close>

theorem class_ids_one_based:
  fixes sample_only :: bool
    and images :: "(int \<times> string) list"
    and labels :: "(int \<times> int) list"
    and cs :: "int list"
  defines "cs \<equiv> sorted_unique_classes (filtered_table sample_only images labels)"
  assumes "get_train_val_dataframes rk s sample_only images labels
     = Inr ((train_df, val_df, test_df), s')"
  shows "sorted cs \<and> distinct cs
    \<and> (\<forall>j<length cs. id_to_one_based cs (cs ! j) = Some (py_str (int j + 1)))
    \<and> (\<forall>x \<in> set train_df \<union> set val_df \<union> set test_df.
          \<exists>j<length cs. orig_class_id (snd x) = cs ! j
            \<and> class_id (snd x) = Some (py_str (int j + 1)))"
proof -
  let ?ft = "filtered_table sample_only images labels"
  have sd: "sorted cs" "distinct cs"
    unfolding cs_def by (rule sorted_unique_classes_props)+
  have m: "id_to_one_based cs (cs ! j) = Some (py_str (int j + 1))" if "j < length cs" for j
    using id_to_one_based_loop_nth [OF sd(2) that, of 1 Map.empty]
    by (simp add: id_to_one_based_def ac_simps)
  have rows: "\<exists>j<length cs. orig_class_id (snd x) = cs ! j
      \<and> class_id (snd x) = Some (py_str (int j + 1))"
    if x: "x \<in> set train_df \<union> set val_df \<union> set test_df" for x
  proof -
    from x outputs_from_table [OF assms(2)]
    have "x \<in> set (labelled_table sample_only images labels)" by blast
    from labelled_table_rows [OF this] obtain y where y: "y \<in> set ?ft"
      "orig_class_id (snd x) = snd (snd (snd y))"
      "class_id (snd x) = id_to_one_based cs (snd (snd (snd y)))"
      unfolding cs_def by blast
    from y(1) have "snd (snd (snd y)) \<in> set cs"
      unfolding cs_def by (simp add: sorted_unique_classes_props)
    then obtain j where j: "j < length cs" "cs ! j = snd (snd (snd y))"
      by (auto simp: in_set_conv_nth)
    with y m [OF j(1)] show ?thesis by (intro exI [of _ j]) simp
  qed
  from sd m rows show ?thesis by blast
qed

theorem class_ids_one_based_witness:
  "get_train_val_dataframes rk_example 0 False images_example labels_example
     = Inr (([(0, \<lparr>image_file_name = ''013.Bobolink/a.jpg'', orig_class_id = 13,
                     class_id = Some ''1'', class_name = ''013.Bobolink''\<rparr>),
              (3, \<lparr>image_file_name = ''087.Mallard/x.jpg'', orig_class_id = 87,
                     class_id = Some ''3'', class_name = ''087.Mallard''\<rparr>),
              (2, \<lparr>image_file_name = ''017.Cardinal/c.jpg'', orig_class_id = 17,
                     class_id = Some ''2'', class_name = ''017.Cardinal''\<rparr>)],
             [(1, \<lparr>image_file_name = ''013.Bobolink/b.jpg'', orig_class_id = 13,
                     class_id = Some ''1'', class_name = ''013.Bobolink''\<rparr>)],
             []), 9)
   \<and> sorted_unique_classes (filtered_table False images_example labels_example) = [13, 17, 87]
   \<and> map py_str [1, 2, 3] = [''1'', ''2'', ''3'']
   \<and> id_to_one_based [13, 17, 87] ([13, 17, 87] ! 2) = Some (py_str (int 2 + 1))
   \<and> (\<exists>j<length [13, 17, 87 :: int].
         orig_class_id \<lparr>image_file_name = ''087.Mallard/x.jpg'', orig_class_id = 87,
                     class_id = Some ''3'', class_name = ''087.Mallard''\<rparr> = [13, 17, 87] ! j
       \<and> class_id \<lparr>image_file_name = ''087.Mallard/x.jpg'', orig_class_id = 87,
                     class_id = Some ''3'', class_name = ''087.Mallard''\<rparr>
           = Some (py_str (int j + 1)))"
proof -
  note h = table_example_eval
  have c: "sorted_unique_classes (filtered_table False images_example labels_example)
      = [13, 17, 87]"
    by code_simp
  have p: "map py_str [1, 2, 3] = [''1'', ''2'', ''3'']" by code_simp
  note t = class_ids_one_based [OF h, unfolded c]
  have len: "2 < length [13, 17, 87 :: int]" by simp
  note a = t [THEN conjunct2, THEN conjunct2, THEN conjunct1, rule_format, OF len]
  have mem: "(3::nat, \<lparr>image_file_name = ''087.Mallard/x.jpg'', orig_class_id = 87,
          class_id = Some ''3'', class_name = ''087.Mallard''\<rparr>)
      \<in> set [(0, \<lparr>image_file_name = ''013.Bobolink/a.jpg'', orig_class_id = 13,
                     class_id = Some ''1'', class_name = ''013.Bobolink''\<rparr>),
              (3, \<lparr>image_file_name = ''087.Mallard/x.jpg'', orig_class_id = 87,
                     class_id = Some ''3'', class_name = ''087.Mallard''\<rparr>),
              (2, \<lparr>image_file_name = ''017.Cardinal/c.jpg'', orig_class_id = 17,
                     class_id = Some ''2'', class_name = ''017.Cardinal''\<rparr>)]
        \<union> set [(1, \<lparr>image_file_name = ''013.Bobolink/b.jpg'', orig_class_id = 13,
                     class_id = Some ''1'', class_name = ''013.Bobolink''\<rparr>)]
        \<union> set []"
    by simp
  note b = bspec [OF t [THEN conjunct2, THEN conjunct2, THEN conjunct2] mem,
      unfolded snd_conv]
  from h c p a b show ?thesis by (intro conjI)
qed

text \<open>
  C9. The filenames of \<open>EXCLUDE_IMAGE_LIST\<close> are removed from the image table before the
  merge, the class filter and the split: no row of the table that is split, and so no
  row of the three dataframes returned by \<open>get_train_val_dataframes\<close>, has an
  \<open>image_file_name\<close> in \<open>EXCLUDE_IMAGE_LIST\<close>.
\<close>

theorem excluded_images_absent:
  assumes "get_train_val_dataframes rk s sample_only images labels
     = Inr ((train_df, val_df, test_df), s')"
  shows "(\<forall>x \<in> set (labelled_table sample_only images labels).
            image_file_name (snd x) \<notin> set EXCLUDE_IMAGE_LIST)
    \<and> (\<forall>x \<in> set train_df \<union> set val_df \<union> set test_df.
            image_file_name (snd x) \<notin> set EXCLUDE_IMAGE_LIST)"
proof -
  have t: "image_file_name (snd x) \<notin> set EXCLUDE_IMAGE_LIST"
    if "x \<in> set (labelled_table sample_only images labels)" for x
  proof -
    from labelled_table_rows [OF that] obtain y where
      "y \<in> set (filtered_table sample_only images labels)"
      "image_file_name (snd x) = fst (snd (snd y))" by blast
    then show ?thesis using filtered_table_not_excluded by metis
  qed
  with outputs_from_table [OF assms] show ?thesis by blast
qed

theorem excluded_images_absent_witness:
  "get_train_val_dataframes rk_example 0 False images_example labels_example
     = Inr (([(0, \<lparr>image_file_name = ''013.Bobolink/a.jpg'', orig_class_id = 13,
                     class_id = Some ''1'', class_name = ''013.Bobolink''\<rparr>),
              (3, \<lparr>image_file_name = ''087.Mallard/x.jpg'', orig_class_id = 87,
                     class_id = Some ''3'', class_name = ''087.Mallard''\<rparr>),
              (2, \<lparr>image_file_name = ''017.Cardinal/c.jpg'', orig_class_id = 17,
                     class_id = Some ''2'', class_name = ''017.Cardinal''\<rparr>)],
             [(1, \<lparr>image_file_name = ''013.Bobolink/b.jpg'', orig_class_id = 13,
                     class_id = Some ''1'', class_name = ''013.Bobolink''\<rparr>)],
             []), 9)
   \<and> ''087.Mallard/Mallard_0130_76836.jpg'' \<in> set (map snd images_example)
   \<and> ''087.Mallard/Mallard_0130_76836.jpg'' \<in> set EXCLUDE_IMAGE_LIST
   \<and> image_file_name \<lparr>image_file_name = ''087.Mallard/x.jpg'', orig_class_id = 87,
         class_id = Some ''3'', class_name = ''087.Mallard''\<rparr> \<notin> set EXCLUDE_IMAGE_LIST"
proof -
  note h = table_example_eval
  have i: "''087.Mallard/Mallard_0130_76836.jpg'' \<in> set (map snd images_example)"
    by code_simp
  have e: "''087.Mallard/Mallard_0130_76836.jpg'' \<in> set EXCLUDE_IMAGE_LIST"
    by code_simp
  have mem: "(3::nat, \<lparr>image_file_name = ''087.Mallard/x.jpg'', orig_class_id = 87,
          class_id = Some ''3'', class_name = ''087.Mallard''\<rparr>)
      \<in> set [(0, \<lparr>image_file_name = ''013.Bobolink/a.jpg'', orig_class_id = 13,
                     class_id = Some ''1'', class_name = ''013.Bobolink''\<rparr>),
              (3, \<lparr>image_file_name = ''087.Mallard/x.jpg'', orig_class_id = 87,
                     class_id = Some ''3'', class_name = ''087.Mallard''\<rparr>),
              (2, \<lparr>image_file_name = ''017.Cardinal/c.jpg'', orig_class_id = 17,
                     class_id = Some ''2'', class_name = ''017.Cardinal''\<rparr>)]
        \<union> set [(1, \<lparr>image_file_name = ''013.Bobolink/b.jpg'', orig_class_id = 13,
                     class_id = Some ''1'', class_name = ''013.Bobolink''\<rparr>)]
        \<union> set []"
    by simp
  note x = bspec [OF excluded_images_absent [OF h, THEN conjunct2] mem, unfolded snd_conv]
  from h i e x show ?thesis by (intro conjI)
qed

end
